theory Spec2Isabelle
  imports Main
begin

section \<open>JavaScript values of the OpenAPI document\<close>

text \<open>
  The server keeps the parsed OpenAPI document as plain JavaScript data and inspects it
  dynamically (\<^verbatim>\<open>typeof\<close>, \<^verbatim>\<open>in\<close>, \<^verbatim>\<open>Object.entries\<close>).
  The type \<^verbatim>\<open>JsonValue\<close> of \<^verbatim>\<open>types.ts\<close> is the datatype below.
  An object is the list of its own entries in the order \<^verbatim>\<open>Object.entries\<close> yields them;
  its keys are pairwise distinct, and property lookup takes the entry of the given key.

  The model covers the values a JSON or YAML parser yields, within these limits: numbers are
  the integers; a string is the byte string of its UTF-8 encoding, and it is cased as an
  ASCII string is; no object has an entry named \<^verbatim>\<open>__proto__\<close> or \<^verbatim>\<open>toString\<close>,
  which would change what an assignment to that key and \<^verbatim>\<open>String\<close> of the object do;
  and a lookup in an object of the document sees the entries only. The members every object
  inherits from \<^verbatim>\<open>Object.prototype\<close> are modelled where the code reads an object it
  created itself with a key it is given (the tag buckets of \<^verbatim>\<open>createSummary\<close>).
\<close>

datatype json =
    JNull
  | JBool bool
  | JNum int
  | JStr string
  | JArr "json list"
  | JObj "(string \<times> json) list"

text \<open>A fault raised by the JavaScript runtime itself (calling a method a value lacks).\<close>

datatype js_error = TypeError

text \<open>Truthiness, as \<^verbatim>\<open>if (v)\<close> and \<^verbatim>\<open>v || d\<close> decide it.\<close>

fun truthy :: "json \<Rightarrow> bool" where
  "truthy JNull = False"
| "truthy (JBool b) = b"
| "truthy (JNum n) = (n \<noteq> 0)"
| "truthy (JStr s) = (s \<noteq> [])"
| "truthy (JArr xs) = True"
| "truthy (JObj es) = True"

text \<open>
  \<^verbatim>\<open>v.name\<close> for one of the operation field names (\<^verbatim>\<open>summary\<close>, \<^verbatim>\<open>tags\<close>, ...):
  an object yields its entry, and an array, a string, a number or a boolean has no member of
  such a name, so the read gives \<^verbatim>\<open>undefined\<close> (\<open>None\<close>). The code never reads
  a field of \<^verbatim>\<open>null\<close>.
\<close>

fun get_prop :: "json \<Rightarrow> string \<Rightarrow> json option" where
  "get_prop (JObj es) k = map_of es k"
| "get_prop _ k = None"

text \<open>\<^verbatim>\<open>String.prototype.split\<close> with a one-character separator.\<close>

fun split_on :: "char \<Rightarrow> string \<Rightarrow> string list" where
  "split_on c [] = [[]]"
| "split_on c (x # xs) =
     (if x = c then [] # split_on c xs
      else (case split_on c xs of p # ps \<Rightarrow> (x # p) # ps | [] \<Rightarrow> [[x]]))"

text \<open>\<^verbatim>\<open>parts[i]\<close>: reading past the end of an array gives \<^verbatim>\<open>undefined\<close>.\<close>

definition part_at :: "string list \<Rightarrow> nat \<Rightarrow> string option" where
  "part_at ps i = (if i < length ps then Some (ps ! i) else None)"

section \<open>The document\<close>

record OpenAPIComponents =
  schemas :: "(string \<times> json) list option"

record OpenAPISpec =
  info :: "json option"
  paths :: "(string \<times> (string \<times> json) list) list"
  components :: "OpenAPIComponents option"

section \<open>Reference resolution\<close>

text \<open>
  \<^verbatim>\<open>spec.components?.schemas?.[schemaName]\<close> after the test of the first three parts of
  the reference, together with the test \<^verbatim>\<open>if (referencedSchema)\<close>: the schema the
  reference is replaced by, if any. A reference with no fourth part reads the key
  \<^verbatim>\<open>undefined\<close>. The table is read by its entries: a schema name that is no entry
  of the table and names a member inherited from \<^verbatim>\<open>Object.prototype\<close> is outside the
  model.
\<close>

definition referenced_schema :: "OpenAPISpec \<Rightarrow> string \<Rightarrow> json option" where
  "referenced_schema spec ref =
     (let parts = split_on CHR ''/'' ref in
      if part_at parts 0 = Some ''#'' \<and> part_at parts 1 = Some ''components''
         \<and> part_at parts 2 = Some ''schemas''
      then (let schemaName = (case part_at parts 3 of Some n \<Rightarrow> n | None \<Rightarrow> ''undefined'') in
            case components spec of
              None \<Rightarrow> None
            | Some c \<Rightarrow>
                (case schemas c of
                   None \<Rightarrow> None
                 | Some tbl \<Rightarrow>
                     (case map_of tbl schemaName of
                        Some s \<Rightarrow> if truthy s then Some s else None
                      | None \<Rightarrow> None)))
      else None)"

text \<open>
  \<^verbatim>\<open>resolveSchemaReferences(obj, spec, visited)\<close>. The set \<^verbatim>\<open>visited\<close> is one
  mutable object handed to every recursive call, so the function returns it updated next to
  its result. \<^verbatim>\<open>obj.$ref as string\<close> is an unchecked cast: on a value that is no string,
  \<^verbatim>\<open>ref.split\<close> is no function and the call raises \<open>TypeError\<close>.
  \<open>resolve_items\<close> is the \<^verbatim>\<open>obj.map\<close> over an array, \<open>resolve_entries\<close> the
  loop over \<^verbatim>\<open>Object.entries(obj)\<close> that fills \<^verbatim>\<open>resolved\<close>; every value of
  the datatype passes \<^verbatim>\<open>isJsonValue\<close>.
\<close>

function resolveSchemaReferences ::
    "json \<Rightarrow> OpenAPISpec \<Rightarrow> string set \<Rightarrow> js_error + (json \<times> string set)"
  and resolve_items ::
    "json list \<Rightarrow> OpenAPISpec \<Rightarrow> string set \<Rightarrow> js_error + (json list \<times> string set)"
  and resolve_entries ::
    "(string \<times> json) list \<Rightarrow> OpenAPISpec \<Rightarrow> string set
       \<Rightarrow> js_error + ((string \<times> json) list \<times> string set)"
where
  "resolveSchemaReferences JNull spec visited = Inr (JNull, visited)"
| "resolveSchemaReferences (JBool b) spec visited = Inr (JBool b, visited)"
| "resolveSchemaReferences (JNum n) spec visited = Inr (JNum n, visited)"
| "resolveSchemaReferences (JStr s) spec visited = Inr (JStr s, visited)"
| "resolveSchemaReferences (JArr xs) spec visited =
     (case resolve_items xs spec visited of
        Inl e \<Rightarrow> Inl e
      | Inr (ys, visited') \<Rightarrow> Inr (JArr ys, visited'))"
| "resolveSchemaReferences (JObj es) spec visited =
     (case map_of es ''$ref'' of
        Some (JStr ref) \<Rightarrow>
          if ref \<in> visited then Inr (JObj [(''$ref'', JStr ref)], visited)
          else (case referenced_schema spec ref of
                  Some referencedSchema \<Rightarrow>
                    resolveSchemaReferences referencedSchema spec (insert ref visited)
                | None \<Rightarrow> Inr (JObj es, insert ref visited))
      | Some _ \<Rightarrow> Inl TypeError
      | None \<Rightarrow>
          (case resolve_entries es spec visited of
             Inl e \<Rightarrow> Inl e
           | Inr (fs, visited') \<Rightarrow> Inr (JObj fs, visited')))"
| "resolve_items [] spec visited = Inr ([], visited)"
| "resolve_items (x # xs) spec visited =
     (case resolveSchemaReferences x spec visited of
        Inl e \<Rightarrow> Inl e
      | Inr (y, visited1) \<Rightarrow>
          (case resolve_items xs spec visited1 of
             Inl e \<Rightarrow> Inl e
           | Inr (ys, visited2) \<Rightarrow> Inr (y # ys, visited2)))"
| "resolve_entries [] spec visited = Inr ([], visited)"
| "resolve_entries ((key, value) # es) spec visited =
     (case resolveSchemaReferences value spec visited of
        Inl e \<Rightarrow> Inl e
      | Inr (v, visited1) \<Rightarrow>
          (case resolve_entries es spec visited1 of
             Inl e \<Rightarrow> Inl e
           | Inr (fs, visited2) \<Rightarrow> Inr ((key, v) # fs, visited2)))"
  by pat_completeness auto

text \<open>
  Termination. Every string a call can add to \<open>visited\<close> and then follow occurs in the
  node or in the schema table; following a reference puts a new one of these strings into
  \<open>visited\<close>, and every other call descends into the node. The strings of a value:
\<close>

fun strs :: "json \<Rightarrow> string set" where
  "strs JNull = {}"
| "strs (JBool b) = {}"
| "strs (JNum n) = {}"
| "strs (JStr s) = {s}"
| "strs (JArr xs) = (\<Union>x \<in> set xs. strs x)"
| "strs (JObj es) = (\<Union>p \<in> set es. strs (snd p))"

definition schema_strs :: "OpenAPISpec \<Rightarrow> string set" where
  "schema_strs spec =
     (case components spec of
        None \<Rightarrow> {}
      | Some c \<Rightarrow> (case schemas c of None \<Rightarrow> {} | Some tbl \<Rightarrow> (\<Union>p \<in> set tbl. strs (snd p))))"

definition resolve_measure ::
  "json \<times> OpenAPISpec \<times> string set + json list \<times> OpenAPISpec \<times> string set
     + (string \<times> json) list \<times> OpenAPISpec \<times> string set \<Rightarrow> nat \<times> nat" where
  "resolve_measure a =
     (case a of
        Inl (obj, spec, V) \<Rightarrow> (card ((schema_strs spec \<union> strs obj) - V), size obj)
      | Inr (Inl (xs, spec, V)) \<Rightarrow>
          (card ((schema_strs spec \<union> strs (JArr xs)) - V), size_list size xs)
      | Inr (Inr (es, spec, V)) \<Rightarrow>
          (card ((schema_strs spec \<union> strs (JObj es)) - V),
           size_list (size_prod (\<lambda>_. 0) size) es))"

lemma finite_strs: "finite (strs j)"
  by (induction j rule: strs.induct) auto

lemma finite_schema_strs: "finite (schema_strs spec)"
  by (auto simp: schema_strs_def finite_strs split: option.splits)

lemma referenced_schema_strs:
  "referenced_schema spec ref = Some s \<Longrightarrow> strs s \<subseteq> schema_strs spec"
  by (auto simp: referenced_schema_def schema_strs_def Let_def
      split: if_splits option.splits dest!: map_of_SomeD)

lemma strs_entry: "(k, JStr r) \<in> set es \<Longrightarrow> r \<in> strs (JObj es)"
  by force

lemma ref_in_strs: "map_of es k = Some (JStr r) \<Longrightarrow> r \<in> strs (JObj es)"
  by (rule strs_entry[OF map_of_SomeD])

lemma card_diff_mono:
  "finite A \<Longrightarrow> B \<subseteq> A \<Longrightarrow> V \<subseteq> V' \<Longrightarrow> card (B - V') \<le> card (A - V)"
  by (intro card_mono) auto

lemma visited_grows_dom:
  "resolveSchemaReferences_resolve_items_resolve_entries_dom (Inl (obj, spec, V)) \<Longrightarrow>
     resolveSchemaReferences obj spec V = Inr (y, V') \<Longrightarrow> V \<subseteq> V'"
  "resolveSchemaReferences_resolve_items_resolve_entries_dom (Inr (Inl (xs, spec, V))) \<Longrightarrow>
     resolve_items xs spec V = Inr (ys, V') \<Longrightarrow> V \<subseteq> V'"
  "resolveSchemaReferences_resolve_items_resolve_entries_dom (Inr (Inr (es, spec, V))) \<Longrightarrow>
     resolve_entries es spec V = Inr (fs, V') \<Longrightarrow> V \<subseteq> V'"
proof (induction obj spec V and xs spec V and es spec V arbitrary: y V' and ys V' and fs V'
    rule: resolveSchemaReferences_resolve_items_resolve_entries.pinduct)
  case (1 spec visited)
  then show ?case by (simp add: resolveSchemaReferences.psimps)
next
  case (2 b spec visited)
  then show ?case by (simp add: resolveSchemaReferences.psimps)
next
  case (3 n spec visited)
  then show ?case by (simp add: resolveSchemaReferences.psimps)
next
  case (4 s spec visited)
  then show ?case by (simp add: resolveSchemaReferences.psimps)
next
  case (5 xs spec visited)
  from 5(1,3) obtain ys where "resolve_items xs spec visited = Inr (ys, V')"
    by (simp add: resolveSchemaReferences.psimps split: sum.splits prod.splits)
  then show ?case by (rule 5(2))
next
  case (6 es spec visited)
  show ?case
  proof (cases "map_of es ''$ref''")
    case None
    with 6(1,4) obtain fs where "resolve_entries es spec visited = Inr (fs, V')"
      by (simp add: resolveSchemaReferences.psimps split: sum.splits prod.splits)
    with None show ?thesis using 6(2) by blast
  next
    case (Some r)
    note has_ref = this
    show ?thesis
    proof (cases r)
      case (JStr ref)
      show ?thesis
      proof (cases "ref \<in> visited")
        case True
        with 6(1,4) has_ref JStr show ?thesis
          by (simp add: resolveSchemaReferences.psimps)
      next
        case False
        show ?thesis
        proof (cases "referenced_schema spec ref")
          case None
          with 6(1,4) has_ref JStr False show ?thesis
            by (auto simp add: resolveSchemaReferences.psimps)
        next
          case (Some sch)
          with 6(1,4) has_ref JStr False
          have "resolveSchemaReferences sch spec (insert ref visited) = Inr (y, V')"
            by (simp add: resolveSchemaReferences.psimps)
          then have "insert ref visited \<subseteq> V'"
            using 6(3)[OF has_ref JStr False Some] by blast
          then show ?thesis by blast
        qed
      qed
    qed (use 6(1,4) has_ref in \<open>simp_all add: resolveSchemaReferences.psimps\<close>)
  qed
next
  case (7 spec visited)
  then show ?case by (simp add: resolve_items.psimps)
next
  case (8 x xs spec visited)
  from 8(1,4) obtain y0 V1 ys0 where
    a: "resolveSchemaReferences x spec visited = Inr (y0, V1)" and
    b: "resolve_items xs spec V1 = Inr (ys0, V')"
    by (auto simp add: resolve_items.psimps split: sum.splits prod.splits)
  from 8(2)[OF a] have "visited \<subseteq> V1" .
  moreover from 8(3)[OF a refl b] have "V1 \<subseteq> V'" .
  ultimately show ?case by blast
next
  case (9 spec visited)
  then show ?case by (simp add: resolve_entries.psimps)
next
  case (10 key "value" es spec visited)
  from 10(1,4) obtain y0 V1 fs0 where
    a: "resolveSchemaReferences value spec visited = Inr (y0, V1)" and
    b: "resolve_entries es spec V1 = Inr (fs0, V')"
    by (auto simp add: resolve_entries.psimps split: sum.splits prod.splits)
  from 10(2)[OF a] have "visited \<subseteq> V1" .
  moreover from 10(3)[OF a refl b] have "V1 \<subseteq> V'" .
  ultimately show ?case by blast
qed

termination resolveSchemaReferences
proof (relation "inv_image (less_than <*lex*> less_than) resolve_measure", goal_cases)
  case 1
  then show ?case by (intro wf_inv_image wf_lex_prod wf_less_than)
next
  case (2 xs spec visited)
  then show ?case by (simp add: resolve_measure_def)
next
  case (3 es spec visited)
  then show ?case by (simp add: resolve_measure_def)
next
  case (4 es spec visited x2 x4 x2a)
  have fin: "finite ((schema_strs spec \<union> strs (JObj es)) - visited)"
    using finite_schema_strs finite_strs by blast
  have "x4 \<in> strs (JObj es)" using 4 ref_in_strs by blast
  moreover have "strs x2a \<subseteq> schema_strs spec" using 4 referenced_schema_strs by blast
  ultimately have "(schema_strs spec \<union> strs x2a) - insert x4 visited
      \<subset> (schema_strs spec \<union> strs (JObj es)) - visited"
    using 4(3) by blast
  then have "card ((schema_strs spec \<union> strs x2a) - insert x4 visited)
      < card ((schema_strs spec \<union> strs (JObj es)) - visited)"
    using fin by (rule psubset_card_mono[rotated])
  then show ?case by (simp add: resolve_measure_def)
next
  case (5 x xs spec visited)
  have "card ((schema_strs spec \<union> strs x) - visited)
      \<le> card ((schema_strs spec \<union> strs (JArr (x # xs))) - visited)"
    by (rule card_diff_mono) (use finite_schema_strs finite_strs in auto)
  then show ?case by (auto simp: resolve_measure_def)
next
  case (6 x xs spec visited b xa y)
  then have "visited \<subseteq> y" using visited_grows_dom(1) by metis
  then have "card ((schema_strs spec \<union> strs (JArr xs)) - y)
      \<le> card ((schema_strs spec \<union> strs (JArr (x # xs))) - visited)"
    by (intro card_diff_mono) (use finite_schema_strs finite_strs in auto)
  then show ?case by (auto simp: resolve_measure_def)
next
  case (7 key "value" es spec visited)
  have "card ((schema_strs spec \<union> strs value) - visited)
      \<le> card ((schema_strs spec \<union> strs (JObj ((key, value) # es))) - visited)"
    by (rule card_diff_mono) (use finite_schema_strs finite_strs in auto)
  then show ?case by (auto simp: resolve_measure_def)
next
  case (8 key "value" es spec visited b x y)
  then have "visited \<subseteq> y" using visited_grows_dom(1) by metis
  then have "card ((schema_strs spec \<union> strs (JObj es)) - y)
      \<le> card ((schema_strs spec \<union> strs (JObj ((key, value) # es))) - visited)"
    by (intro card_diff_mono) (use finite_schema_strs finite_strs in auto)
  then show ?case by (auto simp: resolve_measure_def)
qed

text \<open>
  A top-level call leaves out the third argument, and the default \<^verbatim>\<open>new Set()\<close> is
  evaluated at that call: resolution starts from the empty set.
\<close>

definition resolve :: "json \<Rightarrow> OpenAPISpec \<Rightarrow> js_error + json" where
  "resolve obj spec =
     (case resolveSchemaReferences obj spec {} of Inl e \<Rightarrow> Inl e | Inr (r, visited) \<Rightarrow> Inr r)"

section \<open>Strings\<close>

text \<open>
  \<^verbatim>\<open>toUpperCase\<close> and \<^verbatim>\<open>toLowerCase\<close> as they act on a string of ASCII
  characters: the letters \<^verbatim>\<open>a\<close> to \<^verbatim>\<open>z\<close> and \<^verbatim>\<open>A\<close> to \<^verbatim>\<open>Z\<close> change
  case and every other character stays. The model leaves a byte outside ASCII as it is,
  where JavaScript cases letters of other alphabets too; a statement that depends on the
  casing of a string is made for ASCII strings (\<open>ascii_string\<close> below).
\<close>

definition upper_char :: "char \<Rightarrow> char" where
  "upper_char c =
     (case map_of (zip ''abcdefghijklmnopqrstuvwxyz'' ''ABCDEFGHIJKLMNOPQRSTUVWXYZ'') c of
        Some u \<Rightarrow> u
      | None \<Rightarrow> c)"

definition lower_char :: "char \<Rightarrow> char" where
  "lower_char c =
     (case map_of (zip ''ABCDEFGHIJKLMNOPQRSTUVWXYZ'' ''abcdefghijklmnopqrstuvwxyz'') c of
        Some l \<Rightarrow> l
      | None \<Rightarrow> c)"

definition toUpperCase :: "string \<Rightarrow> string" where
  "toUpperCase s = map upper_char s"

definition toLowerCase :: "string \<Rightarrow> string" where
  "toLowerCase s = map lower_char s"

text \<open>
  Decimal digits of a number, as \<^verbatim>\<open>String(n)\<close> prints an integer that a JavaScript
  number holds exactly, up to \<open>2\<^sup>5\<^sup>3 - 1\<close> in magnitude.
\<close>

fun nat_to_dec :: "nat \<Rightarrow> string" where
  "nat_to_dec n =
     (if n < 10 then [''0123456789'' ! n]
      else nat_to_dec (n div 10) @ [''0123456789'' ! (n mod 10)])"

declare nat_to_dec.simps [simp del]

definition int_to_dec :: "int \<Rightarrow> string" where
  "int_to_dec i = (if i < 0 then CHR ''-'' # nat_to_dec (nat (- i)) else nat_to_dec (nat i))"

text \<open>
  \<^verbatim>\<open>String(v)\<close>: an array prints its elements joined by commas, with \<^verbatim>\<open>null\<close>
  elements printed as nothing (\<^verbatim>\<open>Array.prototype.join\<close>), and an object prints as
  \<^verbatim>\<open>[object Object]\<close>, by the \<^verbatim>\<open>toString\<close> it inherits. This is what
  JavaScript prints for the values \<open>string_convertible\<close> below accepts. For the others
  the model is not the code: a number beyond \<open>2\<^sup>5\<^sup>3 - 1\<close> is printed by JavaScript from
  the nearest floating-point number, with an exponent from \<open>10\<^sup>2\<^sup>1\<close> on, and an object
  with an entry named \<^verbatim>\<open>toString\<close> has lost the inherited method, so that
  \<^verbatim>\<open>String\<close> raises a \<^verbatim>\<open>TypeError\<close>.
\<close>

fun js_String :: "json \<Rightarrow> string"
  and js_join :: "json list \<Rightarrow> string"
where
  "js_String JNull = ''null''"
| "js_String (JBool b) = (if b then ''true'' else ''false'')"
| "js_String (JNum n) = int_to_dec n"
| "js_String (JStr s) = s"
| "js_String (JArr xs) = js_join xs"
| "js_String (JObj es) = ''[object Object]''"
| "js_join [] = []"
| "js_join [x] = (if x = JNull then [] else js_String x)"
| "js_join (x # y # ys) = (if x = JNull then [] else js_String x) @ '','' @ js_join (y # ys)"


text \<open>
  A string of ASCII characters (bytes below 128: the top bit \<open>digit7\<close> is not set), and
  such a string in which no character is an upper-case letter: \<^verbatim>\<open>toUpperCase\<close> followed
  by \<^verbatim>\<open>toLowerCase\<close> gives the latter back, in JavaScript as in the model.
\<close>

definition ascii_string :: "string \<Rightarrow> bool" where
  "ascii_string s = list_all (\<lambda>c. \<not> digit7 c) s"

definition lower_case_ascii :: "string \<Rightarrow> bool" where
  "lower_case_ascii k =
     (ascii_string k \<and> list_all (\<lambda>c. c \<notin> set ''ABCDEFGHIJKLMNOPQRSTUVWXYZ'') k)"

section \<open>Endpoint index\<close>

text \<open>
  \<^verbatim>\<open>isOpenAPIOperation\<close> of \<^verbatim>\<open>types.ts\<close>. \<^verbatim>\<open>typeof\<close> gives \<^verbatim>\<open>object\<close> for
  \<^verbatim>\<open>null\<close>, for an array and for an object. \<^verbatim>\<open>k in v\<close> is asked for the four
  names below only: an object has the key when one of its entries has it, and the keys of an
  array are its indices and \<^verbatim>\<open>length\<close>, so none of the four.
\<close>

fun js_typeof :: "json \<Rightarrow> string" where
  "js_typeof JNull = ''object''"
| "js_typeof (JBool b) = ''boolean''"
| "js_typeof (JNum n) = ''number''"
| "js_typeof (JStr s) = ''string''"
| "js_typeof (JArr xs) = ''object''"
| "js_typeof (JObj es) = ''object''"

fun js_in :: "string \<Rightarrow> json \<Rightarrow> bool" where
  "js_in k (JObj es) = (k \<in> set (map fst es))"
| "js_in k _ = False"

definition isOpenAPIOperation :: "json \<Rightarrow> bool" where
  "isOpenAPIOperation v =
     (js_typeof v = ''object'' \<and> v \<noteq> JNull \<and>
      (js_in ''responses'' v \<or> js_in ''summary'' v \<or> js_in ''description'' v
       \<or> js_in ''operationId'' v))"

text \<open>An absent field (\<^verbatim>\<open>undefined\<close>) is \<open>None\<close>.\<close>

record EndpointSummary =
  es_path :: string
  es_method :: string
  es_summary :: "json option"
  es_description :: "json option"
  es_operationId :: "json option"
  es_tags :: "json option"

record EndpointDetails =
  ed_summary :: "json option"
  ed_description :: "json option"
  ed_operationId :: "json option"
  ed_parameters :: "json option"
  ed_requestBody :: "json option"
  ed_responses :: "json option"
  ed_tags :: "json option"

record ApiSummary =
  as_info :: "json option"
  totalEndpoints :: nat
  endpointsByTag :: "string \<rightharpoonup> EndpointSummary list"

text \<open>
  \<^verbatim>\<open>extractEndpointSummaries\<close>: the inner loop over the entries of one path item, and the
  outer loop over \<^verbatim>\<open>Object.entries(spec.paths)\<close>.
\<close>

definition path_item_summaries :: "string \<Rightarrow> (string \<times> json) list \<Rightarrow> EndpointSummary list" where
  "path_item_summaries path pathItem =
     concat (map (\<lambda>(method, operation).
       if isOpenAPIOperation operation
       then [\<lparr>es_path = path, es_method = toUpperCase method,
              es_summary = get_prop operation ''summary'',
              es_description = get_prop operation ''description'',
              es_operationId = get_prop operation ''operationId'',
              es_tags = get_prop operation ''tags''\<rparr>]
       else []) pathItem)"

definition extractEndpointSummaries :: "OpenAPISpec \<Rightarrow> EndpointSummary list" where
  "extractEndpointSummaries spec =
     concat (map (\<lambda>(path, pathItem). path_item_summaries path pathItem) (paths spec))"

text \<open>
  \<^verbatim>\<open>endpoint.tags?.[0] || "default"\<close>, used as a property key. \<^verbatim>\<open>tags?.[0]\<close> is
  \<^verbatim>\<open>undefined\<close> when \<^verbatim>\<open>tags\<close> is absent or \<^verbatim>\<open>null\<close>; otherwise it is the member
  \<^verbatim>\<open>0\<close> of the value.
\<close>

fun first_member :: "json \<Rightarrow> json option" where
  "first_member (JArr xs) = (case xs of [] \<Rightarrow> None | x # _ \<Rightarrow> Some x)"
| "first_member (JStr s) = (case s of [] \<Rightarrow> None | c # _ \<Rightarrow> Some (JStr [c]))"
| "first_member (JObj es) = map_of es ''0''"
| "first_member _ = None"

definition primary_tag :: "EndpointSummary \<Rightarrow> string" where
  "primary_tag endpoint =
     (case es_tags endpoint of
        None \<Rightarrow> ''default''
      | Some tags \<Rightarrow>
          (case first_member tags of
             None \<Rightarrow> ''default''
           | Some t \<Rightarrow> if truthy t then js_String t else ''default''))"

text \<open>
  \<^verbatim>\<open>createSummary\<close> groups the endpoints in \<^verbatim>\<open>groupedByTag\<close>, an object created
  as \<^verbatim>\<open>{}\<close> and read with a key the document chooses. Such an object also answers to
  the names it inherits from \<^verbatim>\<open>Object.prototype\<close>:
\<close>

definition object_prototype_members :: "string list" where
  "object_prototype_members =
     [''constructor'', ''__defineGetter__'', ''__defineSetter__'', ''hasOwnProperty'',
      ''__lookupGetter__'', ''__lookupSetter__'', ''isPrototypeOf'', ''propertyIsEnumerable'',
      ''toString'', ''valueOf'', ''__proto__'', ''toLocaleString'']"

text \<open>
  One round of the \<^verbatim>\<open>forEach\<close>: \<^verbatim>\<open>if (!groupedByTag[tag]) groupedByTag[tag] = []\<close>
  and then \<^verbatim>\<open>groupedByTag[tag].push(endpoint)\<close>. A tag with a bucket gets the endpoint
  pushed. For a tag with no bucket that names an inherited member the test finds that member,
  no bucket is created, and the member has no \<^verbatim>\<open>push\<close>: the call raises
  \<open>TypeError\<close>.
\<close>

definition push_endpoint ::
  "(string \<rightharpoonup> EndpointSummary list) \<Rightarrow> EndpointSummary
     \<Rightarrow> js_error + (string \<rightharpoonup> EndpointSummary list)" where
  "push_endpoint groupedByTag endpoint =
     (let tag = primary_tag endpoint in
      case groupedByTag tag of
        Some bucket \<Rightarrow> Inr (groupedByTag(tag \<mapsto> bucket @ [endpoint]))
      | None \<Rightarrow>
          if tag \<in> set object_prototype_members then Inl TypeError
          else Inr (groupedByTag(tag \<mapsto> [endpoint])))"

fun group_endpoints ::
  "(string \<rightharpoonup> EndpointSummary list) \<Rightarrow> EndpointSummary list
     \<Rightarrow> js_error + (string \<rightharpoonup> EndpointSummary list)" where
  "group_endpoints groupedByTag [] = Inr groupedByTag"
| "group_endpoints groupedByTag (endpoint # endpoints) =
     (case push_endpoint groupedByTag endpoint of
        Inl e \<Rightarrow> Inl e
      | Inr g \<Rightarrow> group_endpoints g endpoints)"

definition createSummary :: "OpenAPISpec \<Rightarrow> js_error + ApiSummary" where
  "createSummary spec =
     (let endpoints = extractEndpointSummaries spec in
      case group_endpoints Map.empty endpoints of
        Inl e \<Rightarrow> Inl e
      | Inr groupedByTag \<Rightarrow>
          Inr \<lparr>as_info = info spec, totalEndpoints = length endpoints,
               endpointsByTag = groupedByTag\<rparr>)"

text \<open>
  \<^verbatim>\<open>getEndpointDetails\<close>. A path item is an object, so \<^verbatim>\<open>!pathItem\<close> holds only when
  the path has no entry; the operation is whatever value stands under the lower-cased
  method, and it is refused only when it is falsy. Both lookups are modelled on the entries
  of the document; a path or a method that names an inherited member and no entry is outside
  the model.
\<close>

definition getEndpointDetails :: "OpenAPISpec \<Rightarrow> string \<Rightarrow> string \<Rightarrow> EndpointDetails option" where
  "getEndpointDetails spec path method =
     (case map_of (paths spec) path of
        None \<Rightarrow> None
      | Some pathItem \<Rightarrow>
          (case map_of pathItem (toLowerCase method) of
             None \<Rightarrow> None
           | Some operation \<Rightarrow>
               if truthy operation
               then Some \<lparr>ed_summary = get_prop operation ''summary'',
                          ed_description = get_prop operation ''description'',
                          ed_operationId = get_prop operation ''operationId'',
                          ed_parameters = get_prop operation ''parameters'',
                          ed_requestBody = get_prop operation ''requestBody'',
                          ed_responses = get_prop operation ''responses'',
                          ed_tags = get_prop operation ''tags''\<rparr>
               else None))"

section \<open>Tool handlers\<close>

datatype ErrorCode = InvalidRequest | InternalError | InvalidParams | MethodNotFound

datatype McpError = McpError ErrorCode string

record ListAllEndpointsArgs =
  filterByTag :: "string option"

text \<open>What a handler throws: a protocol error of its own, or a fault of the runtime.\<close>

datatype tool_fault = Protocol McpError | Runtime js_error

text \<open>
  The \<^verbatim>\<open>result\<close> object \<^verbatim>\<open>handleListAllEndpoints\<close> serialises. \<open>Summary\<close> is a
  summary of endpoints. \<open>InheritedMember i t\<close> is the object the filter leaves when
  \<^verbatim>\<open>endpointsByTag[t]\<close> finds no bucket but the member \<open>t\<close> inherited from
  \<^verbatim>\<open>Object.prototype\<close>: its \<^verbatim>\<open>info\<close> is \<open>i\<close>, its only bucket is that member
  and its \<^verbatim>\<open>totalEndpoints\<close> is the \<^verbatim>\<open>length\<close> of that member.
\<close>

datatype listing = Summary ApiSummary | InheritedMember "json option" string

text \<open>
  \<^verbatim>\<open>handleListAllEndpoints\<close>. The first argument is what awaiting
  \<^verbatim>\<open>loadOpenApiSpec()\<close> gives: the document, or the error it throws. The handler returns
  the JSON text of \<^verbatim>\<open>result\<close>; the model returns \<^verbatim>\<open>result\<close> itself. The filter is
  applied when \<^verbatim>\<open>args.filterByTag\<close> is truthy, that is, a string that is not empty.
\<close>

definition handleListAllEndpoints ::
  "McpError + OpenAPISpec \<Rightarrow> ListAllEndpointsArgs \<Rightarrow> tool_fault + listing" where
  "handleListAllEndpoints loaded args =
     (case loaded of
        Inl e \<Rightarrow> Inl (Protocol e)
      | Inr spec \<Rightarrow>
          (case createSummary spec of
             Inl e \<Rightarrow> Inl (Runtime e)
           | Inr result \<Rightarrow>
               (case filterByTag args of
                  None \<Rightarrow> Inr (Summary result)
                | Some tag \<Rightarrow>
                    if tag = [] then Inr (Summary result)
                    else (case endpointsByTag result tag of
                            Some filteredEndpoints \<Rightarrow>
                              Inr (Summary (result\<lparr>endpointsByTag := [tag \<mapsto> filteredEndpoints],
                                     totalEndpoints := length filteredEndpoints\<rparr>))
                          | None \<Rightarrow>
                              if tag \<in> set object_prototype_members
                              then Inr (InheritedMember (as_info result) tag)
                              else Inr (Summary (result\<lparr>endpointsByTag := Map.empty,
                                     totalEndpoints := 0\<rparr>))))))"

section \<open>Invocation gateway\<close>

record ServerConfig =
  environment :: string
  openApiSpecUrl :: "string option"
  localSpecPath :: "string option"
  apiKey :: "string option"
  readOnlyMode :: bool
  baseUrl :: "string option"

text \<open>
  The arguments of \<^verbatim>\<open>invoke-api-endpoint\<close>. \<^verbatim>\<open>parameters\<close> and
  \<^verbatim>\<open>headers\<close> are objects the caller builds: each is given by its members in the
  order in which they were inserted (for an object read by \<^verbatim>\<open>JSON.parse\<close>, the order of
  the members in the text), with pairwise distinct keys. A value of \<^verbatim>\<open>parameters\<close> is
  \<^verbatim>\<open>unknown\<close>: \<open>None\<close> stands for \<^verbatim>\<open>undefined\<close>.
\<close>

record InvokeApiEndpointArgs =
  ia_path :: string
  ia_method :: string
  ia_parameters :: "(string \<times> json option) list option"
  ia_body :: "json option"
  ia_headers :: "(string \<times> string) list option"

record RequestInfo =
  ri_path :: string
  ri_method :: string

record RequestConfig =
  rc_method :: string
  rc_url :: string
  rc_headers :: "(string \<times> string) list"
  rc_data :: "string option"
  rc_timeout :: int

record AxiosResponse =
  ar_status :: int
  ar_statusText :: string
  ar_data :: "json option"
  ar_headers :: "(string \<times> json) list option"

record AxiosError =
  ax_message :: string
  ax_code :: "string option"
  ax_response :: "AxiosResponse option"

record ApiResponse =
  status :: int
  statusText :: string
  data :: "json option"
  headers :: "(string \<times> string) list"

record ErrorResponse =
  er_status :: int
  er_statusText :: string
  er_data :: "json option"

record ApiError =
  message :: string
  code :: "string option"
  response :: "ErrorResponse option"

text \<open>
  What \<^verbatim>\<open>await axios(requestConfig)\<close> can do: return a response, throw an error that
  \<^verbatim>\<open>axios.isAxiosError\<close> recognises (an error status or a network failure), or throw
  anything else: an \<^verbatim>\<open>Error\<close> with its message, or another value.
\<close>

datatype thrown = ErrorInstance string | ThrownValue json

datatype transport_outcome =
    Responded AxiosResponse
  | AxiosFailed AxiosError
  | Threw thrown

text \<open>
  The collaborators of the handler: the HTTP transport, the two formatters of the
  presentation layer and \<^verbatim>\<open>JSON.stringify\<close>. The handler only passes values to them
  and returns what they give.
\<close>

record Collaborators =
  axios :: "RequestConfig \<Rightarrow> transport_outcome"
  formatApiResponse :: "ApiResponse \<Rightarrow> EndpointDetails \<Rightarrow> string \<Rightarrow> RequestInfo \<Rightarrow> string"
  formatApiError :: "ApiError \<Rightarrow> RequestInfo \<Rightarrow> string \<Rightarrow> string"
  JSON_stringify :: "json \<Rightarrow> string"

text \<open>What the handler asks of the outside, in the order it asks.\<close>

datatype io_event = SpecLoad | HttpCall RequestConfig

text \<open>
  The order in which \<^verbatim>\<open>Object.entries\<close>, \<^verbatim>\<open>Object.keys\<close> and the object spread
  enumerate an object whose members were inserted in the given order: first the keys that
  are array indices, in ascending numeric order, then all other keys in insertion order. An
  array index is the decimal numeral, without leading zeros, of a number below
  \<open>2\<^sup>3\<^sup>2 - 1\<close>.
\<close>

definition dec_value :: "string \<Rightarrow> int" where
  "dec_value s = foldl (\<lambda>n c. 10 * n + (of_char c - 48)) 0 s"

definition is_array_index :: "string \<Rightarrow> bool" where
  "is_array_index k =
     (k \<noteq> [] \<and> set k \<subseteq> set ''0123456789'' \<and> (k = ''0'' \<or> hd k \<noteq> CHR ''0'')
      \<and> dec_value k < 4294967295)"

definition own_property_order :: "(string \<times> 'a) list \<Rightarrow> (string \<times> 'a) list" where
  "own_property_order members =
     sort_key (\<lambda>(k, v). dec_value k) (filter (\<lambda>(k, v). is_array_index k) members)
     @ filter (\<lambda>(k, v). \<not> is_array_index k) members"

text \<open>
  \<^verbatim>\<open>obj[key] = value\<close> on an object given by its members: a key the object has
  keeps its place, a new key comes last.
\<close>

fun assign :: "'k \<Rightarrow> 'v \<Rightarrow> ('k \<times> 'v) list \<Rightarrow> ('k \<times> 'v) list" where
  "assign k v [] = [(k, v)]"
| "assign k v ((k', v') # es) = (if k' = k then (k, v) # es else (k', v') # assign k v es)"

text \<open>
  The serialisation of \<^verbatim>\<open>URLSearchParams.toString()\<close>
  (\<^verbatim>\<open>application/x-www-form-urlencoded\<close>): letters, digits and \<^verbatim>\<open>*-._\<close> stay, a
  space becomes \<^verbatim>\<open>+\<close>, every other byte is written as a percent sign and two hexadecimal
  digits; the pairs are joined by \<^verbatim>\<open>&\<close>.
\<close>

definition hex_digit :: "nat \<Rightarrow> char" where
  "hex_digit n = ''0123456789ABCDEF'' ! n"

definition unreserved :: "char \<Rightarrow> bool" where
  "unreserved c =
     (c \<in> set ''abcdefghijklmnopqrstuvwxyzABCDEFGHIJKLMNOPQRSTUVWXYZ0123456789*-._'')"

definition encode_byte :: "char \<Rightarrow> string" where
  "encode_byte c =
     (if unreserved c then [c]
      else if c = CHR '' '' then ''+''
      else [CHR ''%'', hex_digit (of_char c div 16), hex_digit (of_char c mod 16)])"

definition urlencode :: "string \<Rightarrow> string" where
  "urlencode s = concat (map encode_byte s)"

fun serialize_params :: "(string \<times> string) list \<Rightarrow> string" where
  "serialize_params [] = []"
| "serialize_params [(k, v)] = urlencode k @ ''='' @ urlencode v"
| "serialize_params ((k, v) # p # ps) =
     urlencode k @ ''='' @ urlencode v @ ''&'' @ serialize_params (p # ps)"

text \<open>
  The \<^verbatim>\<open>forEach\<close> over \<^verbatim>\<open>Object.entries(parameters)\<close> that appends to
  \<^verbatim>\<open>urlParams\<close>: \<open>append_param\<close> is the callback and \<open>url_params\<close> the loop.
\<close>

definition append_param ::
  "(string \<times> string) list \<Rightarrow> string \<times> json option \<Rightarrow> (string \<times> string) list" where
  "append_param urlParams entry =
     (case entry of
        (key, None) \<Rightarrow> urlParams
      | (key, Some JNull) \<Rightarrow> urlParams
      | (key, Some v) \<Rightarrow> urlParams @ [(key, js_String v)])"

definition url_params :: "(string \<times> json option) list \<Rightarrow> (string \<times> string) list" where
  "url_params parameters = foldl append_param [] (own_property_order parameters)"

text \<open>The template literal \<^verbatim>\<open>${this.config.baseUrl}${path}\<close>.\<close>

definition base_url :: "ServerConfig \<Rightarrow> string" where
  "base_url config = (case baseUrl config of None \<Rightarrow> ''undefined'' | Some b \<Rightarrow> b)"

text \<open>
  The URL of the request. \<^verbatim>\<open>Object.keys(parameters).length\<close> is the number of
  members of \<^verbatim>\<open>parameters\<close>.
\<close>

definition request_url :: "ServerConfig \<Rightarrow> InvokeApiEndpointArgs \<Rightarrow> string" where
  "request_url config args =
     (let url = base_url config @ ia_path args in
      case ia_parameters args of
        None \<Rightarrow> url
      | Some parameters \<Rightarrow>
          if length parameters > 0
          then (let queryString = serialize_params (url_params parameters) in
                if queryString \<noteq> [] then url @ ''?'' @ queryString else url)
          else url)"

text \<open>
  The object literal \<^verbatim>\<open>{"X-API-key": ..., "Content-Type": ..., ...headers}\<close>: the two
  members are inserted, then the caller's headers in the order the spread enumerates them,
  a header of a name already there taking the place of the value. The result, like every
  object the handler passes on, is given by its entries in the order of
  \<^verbatim>\<open>Object.entries\<close>.
\<close>

definition request_headers :: "string \<Rightarrow> (string \<times> string) list option \<Rightarrow> (string \<times> string) list" where
  "request_headers key hs =
     own_property_order
       (foldl (\<lambda>acc (k, v). assign k v acc)
          [(''X-API-key'', key), (''Content-Type'', ''application/json'')]
          (case hs of None \<Rightarrow> [] | Some h \<Rightarrow> own_property_order h))"

definition request_config :: "ServerConfig \<Rightarrow> Collaborators \<Rightarrow> string \<Rightarrow> InvokeApiEndpointArgs \<Rightarrow> RequestConfig" where
  "request_config config env key args =
     \<lparr>rc_method = ia_method args,
      rc_url = request_url config args,
      rc_headers = request_headers key (ia_headers args),
      rc_data = (case ia_body args of
                   None \<Rightarrow> None
                 | Some body \<Rightarrow> if truthy body then Some (JSON_stringify env body) else None),
      rc_timeout = 30000\<rparr>"

text \<open>The \<^verbatim>\<open>reduce\<close> that turns the response headers into strings.\<close>

definition plain_headers :: "(string \<times> json) list option \<Rightarrow> (string \<times> string) list" where
  "plain_headers hs =
     foldl (\<lambda>acc (key, value).
              case value of
                JStr s \<Rightarrow> assign key s acc
              | JNull \<Rightarrow> acc
              | _ \<Rightarrow> assign key (js_String value) acc)
       [] (case hs of None \<Rightarrow> [] | Some h \<Rightarrow> h)"

definition api_response :: "AxiosResponse \<Rightarrow> ApiResponse" where
  "api_response r =
     \<lparr>status = ar_status r, statusText = ar_statusText r, data = ar_data r,
      headers = plain_headers (ar_headers r)\<rparr>"

text \<open>The two error records the \<^verbatim>\<open>catch\<close> block builds.\<close>

definition axios_api_error :: "AxiosError \<Rightarrow> ApiError" where
  "axios_api_error e =
     \<lparr>message = ax_message e, code = ax_code e,
      response = (case ax_response e of
                    None \<Rightarrow> None
                  | Some r \<Rightarrow> Some \<lparr>er_status = ar_status r, er_statusText = ar_statusText r,
                                      er_data = ar_data r\<rparr>)\<rparr>"

definition generic_api_error :: "thrown \<Rightarrow> ApiError" where
  "generic_api_error t =
     \<lparr>message = (case t of ErrorInstance m \<Rightarrow> m | ThrownValue v \<Rightarrow> js_String v),
      code = None, response = None\<rparr>"

text \<open>
  \<^verbatim>\<open>handleInvokeApiEndpoint\<close>. The result is the error thrown to the caller or the text
  of the returned content, next to the requests the call made of the outside. \<open>loaded\<close> is
  what awaiting \<^verbatim>\<open>loadOpenApiSpec()\<close> gives. An API key that is absent or empty is falsy.
  \<open>invoke_request\<close> is the \<^verbatim>\<open>try\<close> block with its \<^verbatim>\<open>catch\<close>: the text it
  returns and the request it sent.
\<close>

definition invoke_request ::
  "ServerConfig \<Rightarrow> Collaborators \<Rightarrow> string \<Rightarrow> EndpointDetails \<Rightarrow> InvokeApiEndpointArgs
     \<Rightarrow> string \<times> RequestConfig" where
  "invoke_request config env key endpointDetails args =
     (let requestConfig = request_config config env key args;
          requestInfo = \<lparr>ri_path = ia_path args, ri_method = ia_method args\<rparr>
      in (case axios env requestConfig of
            Responded r \<Rightarrow>
              formatApiResponse env (api_response r) endpointDetails
                (rc_url requestConfig) requestInfo
          | AxiosFailed e \<Rightarrow>
              formatApiError env (axios_api_error e) requestInfo
                (base_url config @ ia_path args)
          | Threw t \<Rightarrow>
              formatApiError env (generic_api_error t) requestInfo
                (base_url config @ ia_path args),
          requestConfig))"

definition api_key_required :: McpError where
  "api_key_required =
     McpError InvalidRequest ''API key is required. Set the IRON_API_KEY environment variable.''"

definition read_only_rejection :: McpError where
  "read_only_rejection =
     McpError InvalidRequest
       ''API calls are disabled in read-only mode. Use environment variable IRON_READ_ONLY_MODE=false to enable.''"

definition handleInvokeApiEndpoint ::
  "ServerConfig \<Rightarrow> Collaborators \<Rightarrow> McpError + OpenAPISpec \<Rightarrow> InvokeApiEndpointArgs
     \<Rightarrow> (McpError + string) \<times> io_event list" where
  "handleInvokeApiEndpoint config env loaded args =
     (if readOnlyMode config then (Inl read_only_rejection, [])
      else
        (case apiKey config of
           None \<Rightarrow> (Inl api_key_required, [])
         | Some key \<Rightarrow>
             if key = [] then (Inl api_key_required, [])
             else
               (case loaded of
                  Inl e \<Rightarrow> (Inl e, [SpecLoad])
                | Inr spec \<Rightarrow>
                    (case getEndpointDetails spec (ia_path args) (ia_method args) of
                       None \<Rightarrow>
                         (Inl (McpError InvalidRequest
                            (''Endpoint not found: '' @ ia_method args @ '' '' @ ia_path args)),
                          [SpecLoad])
                     | Some endpointDetails \<Rightarrow>
                         (case invoke_request config env key endpointDetails args of
                            (text, requestConfig) \<Rightarrow>
                              (Inr text, [SpecLoad, HttpCall requestConfig]))))))"

section \<open>Reference resolution on a heap\<close>

text \<open>
  Whether a call changes the objects it is given cannot be read off a function on values.
  For that question \<^verbatim>\<open>resolveSchemaReferences\<close> is modelled a second time, on a store
  of objects: a JavaScript value is a primitive or the address of an array, an object or a
  \<^verbatim>\<open>Set\<close>; \<^verbatim>\<open>new Set()\<close>, \<^verbatim>\<open>{}\<close>, \<^verbatim>\<open>{ $ref: ref }\<close> and the array that
  \<^verbatim>\<open>map\<close> returns are allocated at the next free address, and \<^verbatim>\<open>visited.add\<close> and
  \<^verbatim>\<open>resolved[key] = ...\<close> update the object at an address.
\<close>

type_synonym addr = nat

datatype jsval = VNull | VBool bool | VNum int | VStr string | VRef addr

datatype cell =
    Arr "jsval list"
  | Obj "(string \<times> jsval) list"
  | SetCell "jsval list"

type_synonym heap = "cell list"

text \<open>
  A call returns a value, raises, or exhausts the stack: objects on a heap can contain
  themselves, and then the recursion does not end. The first argument of the functions
  below bounds the depth of the recursion.
\<close>

datatype 'a outcome = Returned 'a | Raised js_error | StackExhausted

text \<open>Reading, allocating and updating.\<close>

definition cell_at :: "heap \<Rightarrow> addr \<Rightarrow> cell option" where
  "cell_at h a = (if a < length h then Some (h ! a) else None)"

definition alloc :: "cell \<Rightarrow> heap \<Rightarrow> addr \<times> heap" where
  "alloc c h = (length h, h @ [c])"

definition set_members :: "heap \<Rightarrow> addr \<Rightarrow> jsval list" where
  "set_members h a = (case cell_at h a of Some (SetCell vs) \<Rightarrow> vs | _ \<Rightarrow> [])"

definition set_add :: "addr \<Rightarrow> jsval \<Rightarrow> heap \<Rightarrow> heap" where
  "set_add a v h = h[a := SetCell (set_members h a @ [v])]"

definition object_assign :: "addr \<Rightarrow> string \<Rightarrow> jsval \<Rightarrow> heap \<Rightarrow> heap" where
  "object_assign a k v h =
     (case cell_at h a of Some (Obj es) \<Rightarrow> h[a := Obj (assign k v es)] | _ \<Rightarrow> h)"

text \<open>\<^verbatim>\<open>v?.[k]\<close> for the schema table: the entry of an object, and nothing otherwise.\<close>

definition read_member :: "heap \<Rightarrow> jsval \<Rightarrow> string \<Rightarrow> jsval option" where
  "read_member h v k =
     (case v of
        VRef a \<Rightarrow> (case cell_at h a of Some (Obj es) \<Rightarrow> map_of es k | _ \<Rightarrow> None)
      | _ \<Rightarrow> None)"

fun truthy_val :: "jsval \<Rightarrow> bool" where
  "truthy_val VNull = False"
| "truthy_val (VBool b) = b"
| "truthy_val (VNum n) = (n \<noteq> 0)"
| "truthy_val (VStr s) = (s \<noteq> [])"
| "truthy_val (VRef a) = True"

definition referenced_schema_heap :: "heap \<Rightarrow> addr \<Rightarrow> string \<Rightarrow> jsval option" where
  "referenced_schema_heap h spec ref =
     (let parts = split_on CHR ''/'' ref in
      if part_at parts 0 = Some ''#'' \<and> part_at parts 1 = Some ''components''
         \<and> part_at parts 2 = Some ''schemas''
      then (let schemaName = (case part_at parts 3 of Some n \<Rightarrow> n | None \<Rightarrow> ''undefined'') in
            case read_member h (VRef spec) ''components'' of
              None \<Rightarrow> None
            | Some c \<Rightarrow>
                (case read_member h c ''schemas'' of
                   None \<Rightarrow> None
                 | Some tbl \<Rightarrow>
                     (case read_member h tbl schemaName of
                        Some s \<Rightarrow> if truthy_val s then Some s else None
                      | None \<Rightarrow> None)))
      else None)"

text \<open>
  \<^verbatim>\<open>resolveSchemaReferences\<close>, \<^verbatim>\<open>obj.map\<close> and the loop that fills
  \<^verbatim>\<open>resolved\<close>, whose address is the fifth argument. \<^verbatim>\<open>visited.has(ref)\<close> compares
  primitives by value and objects by address. \<^verbatim>\<open>isJsonValue\<close> only reads, and holds of
  every value of this model.
\<close>

fun resolveSchemaReferences_heap :: "nat \<Rightarrow> jsval \<Rightarrow> addr \<Rightarrow> addr \<Rightarrow> heap \<Rightarrow> jsval outcome \<times> heap"
  and resolve_items_heap :: "nat \<Rightarrow> jsval list \<Rightarrow> addr \<Rightarrow> addr \<Rightarrow> heap \<Rightarrow> jsval list outcome \<times> heap"
  and resolve_entries_heap ::
    "nat \<Rightarrow> (string \<times> jsval) list \<Rightarrow> addr \<Rightarrow> addr \<Rightarrow> addr \<Rightarrow> heap \<Rightarrow> unit outcome \<times> heap"
where
  "resolveSchemaReferences_heap 0 obj spec visited h = (StackExhausted, h)"
| "resolveSchemaReferences_heap (Suc n) obj spec visited h =
     (case obj of
        VRef a \<Rightarrow>
          (case cell_at h a of
             None \<Rightarrow> (Returned obj, h)
           | Some (Arr xs) \<Rightarrow>
               (case resolve_items_heap n xs spec visited h of
                  (Returned ys, h1) \<Rightarrow> (case alloc (Arr ys) h1 of (b, h2) \<Rightarrow> (Returned (VRef b), h2))
                | (Raised e, h1) \<Rightarrow> (Raised e, h1)
                | (StackExhausted, h1) \<Rightarrow> (StackExhausted, h1))
           | Some (SetCell vs) \<Rightarrow>
               (case alloc (Obj []) h of (b, h1) \<Rightarrow> (Returned (VRef b), h1))
           | Some (Obj es) \<Rightarrow>
               (case map_of es ''$ref'' of
                  Some ref \<Rightarrow>
                    if ref \<in> set (set_members h visited)
                    then (case alloc (Obj [(''$ref'', ref)]) h of (b, h1) \<Rightarrow> (Returned (VRef b), h1))
                    else (let h1 = set_add visited ref h in
                          case ref of
                            VStr r \<Rightarrow>
                              (case referenced_schema_heap h1 spec r of
                                 Some referencedSchema \<Rightarrow> resolveSchemaReferences_heap n referencedSchema spec visited h1
                               | None \<Rightarrow> (Returned obj, h1))
                          | _ \<Rightarrow> (Raised TypeError, h1))
                | None \<Rightarrow>
                    (case alloc (Obj []) h of
                       (resolved, h1) \<Rightarrow>
                         (case resolve_entries_heap n es spec visited resolved h1 of
                            (Returned u, h2) \<Rightarrow> (Returned (VRef resolved), h2)
                          | (Raised e, h2) \<Rightarrow> (Raised e, h2)
                          | (StackExhausted, h2) \<Rightarrow> (StackExhausted, h2)))))
      | _ \<Rightarrow> (Returned obj, h))"
| "resolve_items_heap n [] spec visited h = (Returned [], h)"
| "resolve_items_heap n (x # xs) spec visited h =
     (case resolveSchemaReferences_heap n x spec visited h of
        (Returned y, h1) \<Rightarrow>
          (case resolve_items_heap n xs spec visited h1 of
             (Returned ys, h2) \<Rightarrow> (Returned (y # ys), h2)
           | (Raised e, h2) \<Rightarrow> (Raised e, h2)
           | (StackExhausted, h2) \<Rightarrow> (StackExhausted, h2))
      | (Raised e, h1) \<Rightarrow> (Raised e, h1)
      | (StackExhausted, h1) \<Rightarrow> (StackExhausted, h1))"
| "resolve_entries_heap n [] spec visited resolved h = (Returned (), h)"
| "resolve_entries_heap n ((key, value) # es) spec visited resolved h =
     (case resolveSchemaReferences_heap n value spec visited h of
        (Returned v, h1) \<Rightarrow> resolve_entries_heap n es spec visited resolved (object_assign resolved key v h1)
      | (Raised e, h1) \<Rightarrow> (Raised e, h1)
      | (StackExhausted, h1) \<Rightarrow> (StackExhausted, h1))"

text \<open>
  A top-level call: the default argument \<^verbatim>\<open>new Set()\<close> is evaluated, and the call runs
  with the new set. The model also returns the address of that set.
\<close>

definition resolve_heap :: "nat \<Rightarrow> jsval \<Rightarrow> addr \<Rightarrow> heap \<Rightarrow> jsval outcome \<times> heap \<times> addr" where
  "resolve_heap n obj spec h =
     (case alloc (SetCell []) h of
        (visited, h0) \<Rightarrow>
          (case resolveSchemaReferences_heap n obj spec visited h0 of (r, h') \<Rightarrow> (r, h', visited)))"

text \<open>
  \<open>extends X h h'\<close>: the heap \<open>h'\<close> has every object of \<open>h\<close>, unchanged except at
  the addresses in \<open>X\<close>.
\<close>

definition extends :: "addr set \<Rightarrow> heap \<Rightarrow> heap \<Rightarrow> bool" where
  "extends X h h' = (length h \<le> length h' \<and> (\<forall>a < length h. a \<notin> X \<longrightarrow> h' ! a = h ! a))"

section \<open>Positions in a value\<close>

text \<open>
  A position is the list of array indices and object keys that leads from a value to a
  value inside it. \<open>value_at\<close> reads the value at a position. \<open>plain_at\<close> reads it too,
  but only along objects that carry no \<^verbatim>\<open>$ref\<close> key: these are the objects the resolver
  walks into entry by entry.
\<close>

datatype step = Idx nat | Key string

fun value_at :: "json \<Rightarrow> step list \<Rightarrow> json option" where
  "value_at j [] = Some j"
| "value_at (JArr xs) (Idx i # p) = (if i < length xs then value_at (xs ! i) p else None)"
| "value_at (JObj es) (Key k # p) =
     (case map_of es k of Some v \<Rightarrow> value_at v p | None \<Rightarrow> None)"
| "value_at _ _ = None"

fun plain_at :: "json \<Rightarrow> step list \<Rightarrow> json option" where
  "plain_at j [] = Some j"
| "plain_at (JArr xs) (Idx i # p) = (if i < length xs then plain_at (xs ! i) p else None)"
| "plain_at (JObj es) (Key k # p) =
     (if map_of es ''$ref'' = None
      then (case map_of es k of Some v \<Rightarrow> plain_at v p | None \<Rightarrow> None)
      else None)"
| "plain_at _ _ = None"

text \<open>
  Every \<^verbatim>\<open>$ref\<close> the resolver can meet in a value is a string: the value of the key in
  a node that has it, and the same for all values the resolver walks into.
\<close>

fun refs_are_strings :: "json \<Rightarrow> bool" where
  "refs_are_strings (JArr xs) = (\<forall>x \<in> set xs. refs_are_strings x)"
| "refs_are_strings (JObj es) =
     (case map_of es ''$ref'' of
        Some (JStr r) \<Rightarrow> True
      | Some _ \<Rightarrow> False
      | None \<Rightarrow> (\<forall>p \<in> set es. refs_are_strings (snd p)))"
| "refs_are_strings _ = True"

section \<open>Example documents\<close>

text \<open>A schema table with one schema that refers to nothing.\<close>

definition shared_spec :: OpenAPISpec where
  "shared_spec =
     \<lparr>info = None, paths = [],
      components = Some \<lparr>schemas = Some [(''Id'', JObj [(''type'', JStr ''string'')])]\<rparr>\<rparr>"

text \<open>A node with two properties that refer to that schema.\<close>

definition shared_node :: json where
  "shared_node =
     JObj [(''from'', JObj [(''$ref'', JStr ''#/components/schemas/Id'')]),
           (''to'', JObj [(''$ref'', JStr ''#/components/schemas/Id'')])]"

text \<open>A schema whose property \<^verbatim>\<open>next\<close> refers to the schema itself.\<close>

definition linked_list_schemas :: "(string \<times> json) list" where
  "linked_list_schemas =
     [(''Node'',
       JObj [(''type'', JStr ''object''),
             (''properties'',
              JObj [(''value'', JObj [(''type'', JStr ''string'')]),
                    (''next'', JObj [(''$ref'', JStr ''#/components/schemas/Node'')])])])]"

definition linked_list_spec :: OpenAPISpec where
  "linked_list_spec =
     \<lparr>info = None, paths = [], components = Some \<lparr>schemas = Some linked_list_schemas\<rparr>\<rparr>"

text \<open>
  The same, with one more property, named \<^verbatim>\<open>$ref\<close>: the object under
  \<^verbatim>\<open>properties\<close> then has a \<^verbatim>\<open>$ref\<close> key whose value is a schema, not a string.
\<close>

definition ref_property_spec :: OpenAPISpec where
  "ref_property_spec =
     \<lparr>info = None, paths = [],
      components = Some \<lparr>schemas = Some
        [(''Link'',
          JObj [(''type'', JStr ''object''),
                (''properties'',
                 JObj [(''$ref'', JObj [(''type'', JStr ''string'')]),
                       (''next'', JObj [(''$ref'', JStr ''#/components/schemas/Link'')])])])]\<rparr>\<rparr>"

text \<open>
  A schema table with the schemas \<^verbatim>\<open>a\<close> and \<^verbatim>\<open>a/b\<close>, the second of which refers
  to itself.
\<close>

definition slash_name_spec :: OpenAPISpec where
  "slash_name_spec =
     \<lparr>info = None, paths = [],
      components = Some \<lparr>schemas = Some
        [(''a'', JObj [(''type'', JStr ''string'')]),
         (''a/b'',
          JObj [(''properties'',
                 JObj [(''next'', JObj [(''$ref'', JStr ''#/components/schemas/a/b'')])])])]\<rparr>\<rparr>"

text \<open>
  The document of the end-to-end scenario: two operations tagged \<^verbatim>\<open>Customer\<close> on one
  path, with a path-level parameter list, and one operation tagged \<^verbatim>\<open>Addresses\<close>.
\<close>

definition customers_item :: "(string \<times> json) list" where
  "customers_item =
     [(''post'', JObj [(''summary'', JStr ''Create a new customer''),
                       (''operationId'', JStr ''createCustomer''),
                       (''tags'', JArr [JStr ''Customer''])]),
      (''get'', JObj [(''summary'', JStr ''List customers''),
                      (''operationId'', JStr ''listCustomers''),
                      (''tags'', JArr [JStr ''Customer''])]),
      (''parameters'', JArr [JObj [(''name'', JStr ''page''), (''in'', JStr ''query'')]])]"

definition customers_spec :: OpenAPISpec where
  "customers_spec =
     \<lparr>info = Some (JObj [(''title'', JStr ''Iron API - Test''), (''version'', JStr ''1.0.0'')]),
      paths =
        [(''/customers'', customers_item),
         (''/addresses'',
          [(''post'', JObj [(''summary'', JStr ''Create address''),
                            (''operationId'', JStr ''createAddress''),
                            (''tags'', JArr [JStr ''Addresses''])])])],
      components = None\<rparr>"

text \<open>A document whose only operation stands under the upper-case key \<^verbatim>\<open>GET\<close>.\<close>

definition upper_key_spec :: OpenAPISpec where
  "upper_key_spec =
     \<lparr>info = None,
      paths = [(''/customers'',
                [(''GET'', JObj [(''summary'', JStr ''List customers''),
                                 (''operationId'', JStr ''listCustomers'')])])],
      components = None\<rparr>"

text \<open>A document whose only operation has no tags.\<close>

definition untagged_spec :: OpenAPISpec where
  "untagged_spec =
     \<lparr>info = None,
      paths = [(''/customers'', [(''get'', JObj [(''summary'', JStr ''List customers'')])])],
      components = None\<rparr>"

text \<open>A document whose only operation has the tag \<^verbatim>\<open>constructor\<close>.\<close>

definition constructor_spec :: OpenAPISpec where
  "constructor_spec =
     \<lparr>info = None,
      paths = [(''/customers'',
                [(''get'', JObj [(''summary'', JStr ''List customers''),
                                (''tags'', JArr [JStr ''constructor''])])])],
      components = None\<rparr>"

text \<open>Two configurations that differ in the read-only flag.\<close>

definition read_only_config :: ServerConfig where
  "read_only_config =
     \<lparr>environment = ''sandbox'', openApiSpecUrl = None, localSpecPath = None,
      apiKey = Some ''test-api-key-123'', readOnlyMode = True,
      baseUrl = Some ''https://api.sandbox.iron.xyz/api''\<rparr>"


text \<open>
  Collaborators for the examples: a transport with a fixed outcome and an error formatter
  that prints the method, the URL and the message.
\<close>

definition plain_error_text :: "ApiError \<Rightarrow> RequestInfo \<Rightarrow> string \<Rightarrow> string" where
  "plain_error_text e ri url = ri_method ri @ '' '' @ url @ '': '' @ message e"

definition fixed_outcome :: "transport_outcome \<Rightarrow> Collaborators" where
  "fixed_outcome outcome =
     \<lparr>axios = (\<lambda>rc. outcome),
      formatApiResponse = (\<lambda>r d url ri. ''ok''),
      formatApiError = plain_error_text,
      JSON_stringify = js_String\<rparr>"


text \<open>
  \<^verbatim>\<open>GET /customers\<close> with a parameters object, and four such objects, each given by
  its members in insertion order: \<^verbatim>\<open>{limit: 10, offset: 0}\<close>; the members
  \<^verbatim>\<open>limit\<close> and \<^verbatim>\<open>5\<close>; an object with keys and values of several kinds; and an
  object with no parameter that has a value.
\<close>

definition get_customers :: "(string \<times> json option) list \<Rightarrow> InvokeApiEndpointArgs" where
  "get_customers parameters =
     \<lparr>ia_path = ''/customers'', ia_method = ''GET'', ia_parameters = Some parameters,
      ia_body = None, ia_headers = None\<rparr>"

definition limit_offset :: "(string \<times> json option) list" where
  "limit_offset = [(''limit'', Some (JNum 10)), (''offset'', Some (JNum 0))]"




text \<open>
  A heap with a document (address 0) whose schema table has one schema, and a node
  (address 5) whose property refers to it.
\<close>

definition example_heap :: heap where
  "example_heap =
     [Obj [(''components'', VRef 1)],
      Obj [(''schemas'', VRef 2)],
      Obj [(''Id'', VRef 3)],
      Obj [(''type'', VStr ''string'')],
      Obj [(''$ref'', VStr ''#/components/schemas/Id'')],
      Obj [(''owner'', VRef 4)]]"

definition example_heap_once :: heap where
  "example_heap_once =
     example_heap @
       [SetCell [VStr ''#/components/schemas/Id''],
        Obj [(''owner'', VRef 8)],
        Obj [(''type'', VStr ''string'')]]"

definition example_heap_twice :: heap where
  "example_heap_twice =
     example_heap_once @
       [SetCell [VStr ''#/components/schemas/Id''],
        Obj [(''owner'', VRef 11)],
        Obj [(''type'', VStr ''string'')]]"

section \<open>Properties of reference resolution\<close>

lemma visited_grows:
  "resolveSchemaReferences obj spec V = Inr (y, V') \<Longrightarrow> V \<subseteq> V'"
  "resolve_items xs spec V = Inr (ys, V') \<Longrightarrow> V \<subseteq> V'"
  "resolve_entries es spec V = Inr (fs, V') \<Longrightarrow> V \<subseteq> V'"
proof (induction obj spec V and xs spec V and es spec V arbitrary: y V' and ys V' and fs V'
    rule: resolveSchemaReferences_resolve_items_resolve_entries.induct)
  case (5 xs spec visited)
  from 5(2) obtain ys where "resolve_items xs spec visited = Inr (ys, V')"
    by (simp split: sum.splits prod.splits)
  then show ?case by (rule 5(1))
next
  case (6 es spec visited)
  show ?case
  proof (cases "map_of es ''$ref''")
    case None
    with 6(3) obtain fs where "resolve_entries es spec visited = Inr (fs, V')"
      by (simp split: sum.splits prod.splits)
    with None show ?thesis using 6(1) by blast
  next
    case (Some r)
    note has_ref = this
    show ?thesis
    proof (cases r)
      case (JStr ref)
      show ?thesis
      proof (cases "ref \<in> visited")
        case True
        with 6(3) has_ref JStr show ?thesis by simp
      next
        case False
        show ?thesis
        proof (cases "referenced_schema spec ref")
          case None
          with 6(3) has_ref JStr False show ?thesis by auto
        next
          case (Some sch)
          with 6(3) has_ref JStr False
          have "resolveSchemaReferences sch spec (insert ref visited) = Inr (y, V')"
            by simp
          then have "insert ref visited \<subseteq> V'"
            using 6(2)[OF has_ref JStr False Some] by blast
          then show ?thesis by blast
        qed
      qed
    qed (use 6(3) has_ref in simp_all)
  qed
next
  case (8 x xs spec visited)
  from 8(3) obtain y0 V1 ys0 where
    a: "resolveSchemaReferences x spec visited = Inr (y0, V1)" and
    b: "resolve_items xs spec V1 = Inr (ys0, V')"
    by (auto split: sum.splits prod.splits)
  from 8(1)[OF a] have "visited \<subseteq> V1" .
  moreover from 8(2)[OF a refl b] have "V1 \<subseteq> V'" .
  ultimately show ?case by blast
next
  case (10 key "value" es spec visited)
  from 10(3) obtain y0 V1 fs0 where
    a: "resolveSchemaReferences value spec visited = Inr (y0, V1)" and
    b: "resolve_entries es spec V1 = Inr (fs0, V')"
    by (auto split: sum.splits prod.splits)
  from 10(1)[OF a] have "visited \<subseteq> V1" .
  moreover from 10(2)[OF a refl b] have "V1 \<subseteq> V'" .
  ultimately show ?case by blast
qed simp_all

lemma split_on_none: "c \<notin> set s \<Longrightarrow> split_on c s = [s]"
  by (induction s) auto

lemma split_on_append: "c \<notin> set xs \<Longrightarrow> split_on c (xs @ c # ys) = xs # split_on c ys"
  by (induction xs) auto

lemma split_ref:
  assumes "CHR ''/'' \<notin> set A"
  shows "split_on CHR ''/'' (''#/components/schemas/'' @ A) = [''#'', ''components'', ''schemas'', A]"
proof -
  have "split_on CHR ''/'' (''#/components/schemas/'' @ A)
      = ''#'' # ''components'' # ''schemas'' # split_on CHR ''/'' A"
    by simp
  then show ?thesis using assms by (simp add: split_on_none)
qed

lemma referenced_schema_by_name:
  assumes "components spec = Some c" "schemas c = Some tbl" "map_of tbl A = Some body"
    "CHR ''/'' \<notin> set A" "truthy body"
  shows "referenced_schema spec (''#/components/schemas/'' @ A) = Some body"
  unfolding referenced_schema_def split_ref[OF assms(4)]
  using assms by (simp add: part_at_def)

lemma resolve_entries_lookup:
  "resolve_entries es spec V = Inr (fs, V') \<Longrightarrow> map_of es k = Some v \<Longrightarrow>
     \<exists>V1 V2 v'. V \<subseteq> V1 \<and> resolveSchemaReferences v spec V1 = Inr (v', V2) \<and> map_of fs k = Some v'"
proof (induction es arbitrary: V fs)
  case Nil
  then show ?case by simp
next
  case (Cons e es)
  obtain key val where e: "e = (key, val)" by (cases e)
  from Cons.prems(1) e obtain v0 V1 fs0 where
    a: "resolveSchemaReferences val spec V = Inr (v0, V1)" and
    b: "resolve_entries es spec V1 = Inr (fs0, V')" and
    c: "fs = (key, v0) # fs0"
    by (auto split: sum.splits prod.splits)
  show ?case
  proof (cases "key = k")
    case True
    with Cons.prems(2) e have "val = v" by simp
    with a c True show ?thesis by auto
  next
    case False
    with Cons.prems(2) e have "map_of es k = Some v" by simp
    from Cons.IH[OF b this] obtain V1' V2 v' where
      "V1 \<subseteq> V1'" "resolveSchemaReferences v spec V1' = Inr (v', V2)" "map_of fs0 k = Some v'"
      by blast
    moreover have "V \<subseteq> V1" using a visited_grows(1) by blast
    ultimately show ?thesis using c False by auto
  qed
qed

lemma resolve_items_nth:
  "resolve_items xs spec V = Inr (ys, V') \<Longrightarrow> i < length xs \<Longrightarrow>
     \<exists>V1 V2. V \<subseteq> V1 \<and> resolveSchemaReferences (xs ! i) spec V1 = Inr (ys ! i, V2) \<and> i < length ys"
proof (induction xs arbitrary: V ys i)
  case Nil
  then show ?case by simp
next
  case (Cons x xs)
  from Cons.prems(1) obtain y0 V1 ys0 where
    a: "resolveSchemaReferences x spec V = Inr (y0, V1)" and
    b: "resolve_items xs spec V1 = Inr (ys0, V')" and
    c: "ys = y0 # ys0"
    by (auto split: sum.splits prod.splits)
  show ?case
  proof (cases i)
    case 0
    with a c show ?thesis by auto
  next
    case (Suc j)
    with Cons.prems(2) have "j < length xs" by simp
    from Cons.IH[OF b this] obtain V1' V2 where
      "V1 \<subseteq> V1'" "resolveSchemaReferences (xs ! j) spec V1' = Inr (ys0 ! j, V2)" "j < length ys0"
      by blast
    moreover have "V \<subseteq> V1" using a visited_grows(1) by blast
    ultimately show ?thesis using c Suc by auto
  qed
qed

lemma marker_at_cycle_point:
  "plain_at j p = Some cyc \<Longrightarrow> get_prop cyc ''$ref'' = Some (JStr r) \<Longrightarrow> r \<in> V \<Longrightarrow>
   resolveSchemaReferences j spec V = Inr (j', V') \<Longrightarrow>
   value_at j' p = Some (JObj [(''$ref'', JStr r)])"
proof (induction j p arbitrary: V j' V' rule: plain_at.induct)
  case (1 j)
  from 1(1) have "cyc = j" by simp
  with 1(2) obtain es where j: "j = JObj es" and m: "map_of es ''$ref'' = Some (JStr r)"
    by (cases j) auto
  from 1(4) have "resolveSchemaReferences (JObj es) spec V = Inr (j', V')"
    unfolding j .
  with m 1(3) have "j' = JObj [(''$ref'', JStr r)]" by simp
  then show ?case by simp
next
  case (2 xs i p)
  from 2(2) have i: "i < length xs" and sub: "plain_at (xs ! i) p = Some cyc"
    by (auto split: if_splits)
  from 2(5) obtain ys where ys: "resolve_items xs spec V = Inr (ys, V')" and j': "j' = JArr ys"
    by (auto split: sum.splits prod.splits)
  from resolve_items_nth[OF ys i] obtain V1 V2 where
    "V \<subseteq> V1" "resolveSchemaReferences (xs ! i) spec V1 = Inr (ys ! i, V2)" "i < length ys"
    by blast
  with 2(1)[OF i sub 2(3)] 2(4) j' show ?case by auto
next
  case (3 es k p)
  from 3(2) obtain v where noref: "map_of es ''$ref'' = None" and v: "map_of es k = Some v"
    and sub: "plain_at v p = Some cyc"
    by (auto split: if_splits option.splits)
  from 3(5) noref obtain fs where fs: "resolve_entries es spec V = Inr (fs, V')" and j': "j' = JObj fs"
    by (auto split: sum.splits prod.splits)
  from resolve_entries_lookup[OF fs v] obtain V1 V2 v' where
    "V \<subseteq> V1" "resolveSchemaReferences v spec V1 = Inr (v', V2)" "map_of fs k = Some v'"
    by blast
  with 3(1)[OF noref v sub 3(3)] 3(4) j' show ?case by auto
qed simp_all


lemma resolution_returns:
  "(\<forall>r s. referenced_schema spec r = Some s \<longrightarrow> refs_are_strings s) \<Longrightarrow>
     refs_are_strings obj \<Longrightarrow> \<exists>y V'. resolveSchemaReferences obj spec V = Inr (y, V')"
  "(\<forall>r s. referenced_schema spec r = Some s \<longrightarrow> refs_are_strings s) \<Longrightarrow>
     (\<forall>x \<in> set xs. refs_are_strings x) \<Longrightarrow> \<exists>ys V'. resolve_items xs spec V = Inr (ys, V')"
  "(\<forall>r s. referenced_schema spec r = Some s \<longrightarrow> refs_are_strings s) \<Longrightarrow>
     (\<forall>p \<in> set es. refs_are_strings (snd p)) \<Longrightarrow> \<exists>fs V'. resolve_entries es spec V = Inr (fs, V')"
proof (induction obj spec V and xs spec V and es spec V
    rule: resolveSchemaReferences_resolve_items_resolve_entries.induct)
  case (5 xs spec visited)
  from 5(3) have "\<forall>x \<in> set xs. refs_are_strings x" by simp
  from 5(1)[OF 5(2) this] show ?case by auto
next
  case (6 es spec visited)
  show ?case
  proof (cases "map_of es ''$ref''")
    case None
    with 6(4) have "\<forall>p \<in> set es. refs_are_strings (snd p)" by simp
    from 6(1)[OF None 6(3) this] None show ?thesis by auto
  next
    case (Some r)
    note has_ref = this
    with 6(4) obtain ref where JStr: "r = JStr ref" by (cases r) auto
    show ?thesis
    proof (cases "ref \<in> visited")
      case True
      with has_ref JStr show ?thesis by simp
    next
      case False
      show ?thesis
      proof (cases "referenced_schema spec ref")
        case None
        with has_ref JStr False show ?thesis by simp
      next
        case (Some sch)
        with 6(3) have "refs_are_strings sch" by blast
        from 6(2)[OF has_ref JStr False Some 6(3) this] has_ref JStr False Some
        show ?thesis by simp
      qed
    qed
  qed
next
  case (8 x xs spec visited)
  from 8(4) have x: "refs_are_strings x" and xs: "\<forall>x \<in> set xs. refs_are_strings x" by simp_all
  from 8(1)[OF 8(3) x] obtain y V1 where a: "resolveSchemaReferences x spec visited = Inr (y, V1)"
    by blast
  from 8(2)[OF a refl 8(3) xs] obtain ys V2 where "resolve_items xs spec V1 = Inr (ys, V2)"
    by blast
  with a show ?case by simp
next
  case (10 key "value" es spec visited)
  from 10(4) have x: "refs_are_strings value" and xs: "\<forall>p \<in> set es. refs_are_strings (snd p)"
    by simp_all
  from 10(1)[OF 10(3) x] obtain y V1 where a: "resolveSchemaReferences value spec visited = Inr (y, V1)"
    by blast
  from 10(2)[OF a refl 10(3) xs] obtain fs V2 where "resolve_entries es spec V1 = Inr (fs, V2)"
    by blast
  with a show ?case by simp
qed simp_all

lemma referenced_schema_in_table:
  "referenced_schema spec r = Some s \<Longrightarrow>
     \<exists>c tbl n. components spec = Some c \<and> schemas c = Some tbl \<and> (n, s) \<in> set tbl"
  by (auto simp: referenced_schema_def Let_def split: if_splits option.splits dest!: map_of_SomeD)

lemma plain_at_truthy:
  "plain_at body p = Some cyc \<Longrightarrow> get_prop cyc k = Some v \<Longrightarrow> truthy body"
  by (cases body; cases p) auto

text \<open>
  C1. The claim: on a schema table without reference cycles, resolving the result of a
  resolution again gives the same value. The code does not do this. \<open>shared_spec\<close> has
  one schema, which refers to nothing, and \<open>shared_node\<close> refers to it from two
  properties. The first resolution expands the first reference and leaves the second as it
  is, since its string is in \<^verbatim>\<open>visited\<close> by then; resolving the result again starts from
  an empty set and expands it.
\<close>

theorem resolve_twice_differs:
  "resolve shared_node shared_spec =
     Inr (JObj [(''from'', JObj [(''type'', JStr ''string'')]),
                (''to'', JObj [(''$ref'', JStr ''#/components/schemas/Id'')])])
   \<and> resolve (JObj [(''from'', JObj [(''type'', JStr ''string'')]),
                    (''to'', JObj [(''$ref'', JStr ''#/components/schemas/Id'')])]) shared_spec =
     Inr (JObj [(''from'', JObj [(''type'', JStr ''string'')]),
                (''to'', JObj [(''type'', JStr ''string'')])])"
proof -
  have "referenced_schema shared_spec ''#/components/schemas/Id''
      = Some (JObj [(''type'', JStr ''string'')])"
    by (simp add: referenced_schema_def shared_spec_def part_at_def)
  then show ?thesis by (simp add: resolve_def shared_node_def)
qed

text \<open>
  C2, as the code has it. Let the schema table have a schema \<open>A\<close> (a name without a
  slash) whose body holds, at a position \<open>p\<close> reached through arrays and objects that are
  no references, a node whose \<^verbatim>\<open>$ref\<close> is \<^verbatim>\<open>#/components/schemas/A\<close>. When every
  \<^verbatim>\<open>$ref\<close> in the table is a string, resolving a node that refers to \<open>A\<close> returns a
  result, and the result has the bare \<^verbatim>\<open>{$ref}\<close> wrapper at position \<open>p\<close>. That the
  call returns at all is the termination of \<open>resolveSchemaReferences\<close>, proved with its
  definition.
\<close>

theorem self_reference_yields_marker:
  assumes tbl: "components spec = Some c" "schemas c = Some tbl"
    and A: "map_of tbl A = Some body" "CHR ''/'' \<notin> set A"
    and ok: "\<forall>e \<in> set tbl. refs_are_strings (snd e)"
    and cyc: "plain_at body p = Some cyc"
      "get_prop cyc ''$ref'' = Some (JStr (''#/components/schemas/'' @ A))"
    and node: "get_prop node ''$ref'' = Some (JStr (''#/components/schemas/'' @ A))"
  shows "\<exists>r. resolve node spec = Inr r
    \<and> value_at r p = Some (JObj [(''$ref'', JStr (''#/components/schemas/'' @ A))])"
proof -
  let ?ref = "''#/components/schemas/'' @ A"
  have body: "referenced_schema spec ?ref = Some body"
    using referenced_schema_by_name[OF tbl A plain_at_truthy[OF cyc]] .
  have all_ok: "\<forall>r s. referenced_schema spec r = Some s \<longrightarrow> refs_are_strings s"
  proof (intro allI impI)
    fix r s assume "referenced_schema spec r = Some s"
    from referenced_schema_in_table[OF this] tbl obtain n where "(n, s) \<in> set tbl" by auto
    with ok show "refs_are_strings s" by auto
  qed
  then have "refs_are_strings body" using body by blast
  from resolution_returns(1)[OF all_ok this, of "{?ref}"] obtain r V' where
    r: "resolveSchemaReferences body spec {?ref} = Inr (r, V')" by blast
  from node obtain es where es: "node = JObj es" "map_of es ''$ref'' = Some (JStr ?ref)"
    by (cases node) auto
  have "resolveSchemaReferences node spec {} = Inr (r, V')"
    unfolding es(1) using es(2) body r by simp
  then have "resolve node spec = Inr r" by (simp add: resolve_def)
  moreover have "value_at r p = Some (JObj [(''$ref'', JStr ?ref)])"
    using marker_at_cycle_point[OF cyc _ r] by simp
  ultimately show ?thesis by blast
qed

theorem self_reference_yields_marker_witness:
  "\<exists>r. resolve (JObj [(''$ref'', JStr ''#/components/schemas/Node'')]) linked_list_spec = Inr r
     \<and> value_at r [Key ''properties'', Key ''next'']
        = Some (JObj [(''$ref'', JStr ''#/components/schemas/Node'')])"
  using self_reference_yields_marker[of linked_list_spec
      "\<lparr>schemas = Some linked_list_schemas\<rparr>" linked_list_schemas "''Node''" _
      "[Key ''properties'', Key ''next'']"
      "JObj [(''$ref'', JStr ''#/components/schemas/Node'')]"
      "JObj [(''$ref'', JStr ''#/components/schemas/Node'')]"]
  by (simp add: linked_list_spec_def linked_list_schemas_def)

text \<open>
  The claim as the specification states it, for every document with a self-referential
  schema, fails on \<open>ref_property_spec\<close>: the schema \<^verbatim>\<open>Link\<close> refers to itself from its
  property \<^verbatim>\<open>next\<close>, and resolving a reference to it raises \<open>TypeError\<close> at the
  object under \<^verbatim>\<open>properties\<close>, so no result is returned. It also fails on
  \<open>slash_name_spec\<close>: the reference to the self-referential schema \<^verbatim>\<open>a/b\<close> is read
  as a reference to \<^verbatim>\<open>a\<close>, and the result has no \<^verbatim>\<open>$ref\<close> in it.
\<close>

theorem self_reference_without_marker:
  "resolve (JObj [(''$ref'', JStr ''#/components/schemas/Link'')]) ref_property_spec
     = Inl TypeError
   \<and> resolve (JObj [(''$ref'', JStr ''#/components/schemas/a/b'')]) slash_name_spec
     = Inr (JObj [(''type'', JStr ''string'')])"
proof -
  have 1: "referenced_schema ref_property_spec ''#/components/schemas/Link''
      = Some (JObj [(''type'', JStr ''object''),
                (''properties'',
                 JObj [(''$ref'', JObj [(''type'', JStr ''string'')]),
                       (''next'', JObj [(''$ref'', JStr ''#/components/schemas/Link'')])])])"
    by (simp add: referenced_schema_def ref_property_spec_def part_at_def)
  have 2: "referenced_schema slash_name_spec ''#/components/schemas/a/b''
      = Some (JObj [(''type'', JStr ''string'')])"
    by (simp add: referenced_schema_def slash_name_spec_def part_at_def)
  from 1 2 show ?thesis by (simp add: resolve_def)
qed

section \<open>Properties of the endpoint index\<close>

lemmas index_defs =
  extractEndpointSummaries_def path_item_summaries_def isOpenAPIOperation_def
  toUpperCase_def upper_char_def toLowerCase_def lower_char_def getEndpointDetails_def
  primary_tag_def

lemma operation_is_object: "isOpenAPIOperation v \<Longrightarrow> \<exists>es. v = JObj es"
  by (cases v) (auto simp: isOpenAPIOperation_def)

lemma in_path_item_summaries:
  "s \<in> set (path_item_summaries p item) \<longleftrightarrow>
     (\<exists>k v. (k, v) \<in> set item \<and> isOpenAPIOperation v \<and>
        s = \<lparr>es_path = p, es_method = toUpperCase k,
              es_summary = get_prop v ''summary'',
              es_description = get_prop v ''description'',
              es_operationId = get_prop v ''operationId'',
              es_tags = get_prop v ''tags''\<rparr>)"
  by (auto simp: path_item_summaries_def split: if_splits)

lemma in_extractEndpointSummaries:
  "s \<in> set (extractEndpointSummaries spec) \<longleftrightarrow>
     (\<exists>p item. (p, item) \<in> set (paths spec) \<and> s \<in> set (path_item_summaries p item))"
  by (auto simp: extractEndpointSummaries_def)

lemma lower_upper_char:
  "c \<notin> set ''ABCDEFGHIJKLMNOPQRSTUVWXYZ'' \<Longrightarrow> lower_char (upper_char c) = c"
  by (simp add: lower_char_def upper_char_def)

lemma lower_upper_string:
  "list_all (\<lambda>c. c \<notin> set ''ABCDEFGHIJKLMNOPQRSTUVWXYZ'') k \<Longrightarrow>
     toLowerCase (toUpperCase k) = k"
  by (induction k) (simp_all add: toLowerCase_def toUpperCase_def lower_upper_char)

lemma lower_upper: "lower_case_ascii k \<Longrightarrow> toLowerCase (toUpperCase k) = k"
  by (simp add: lower_case_ascii_def lower_upper_string)

text \<open>
  C5, as the code has it. \<^verbatim>\<open>extractEndpointSummaries\<close> lists an operation under the
  upper-cased key and \<^verbatim>\<open>getEndpointDetails\<close> looks the lower-cased method up. In a
  document in which every path-item key that holds an operation (a value
  \<^verbatim>\<open>isOpenAPIOperation\<close> accepts) is a string of ASCII characters without upper-case
  letters, as the method names \<^verbatim>\<open>get\<close>, \<^verbatim>\<open>post\<close>, ... of \<^verbatim>\<open>OpenAPIPathItem\<close>
  are, \<^verbatim>\<open>getEndpointDetails\<close> finds every endpoint \<^verbatim>\<open>extractEndpointSummaries\<close>
  lists, with the same \<^verbatim>\<open>operationId\<close> and \<^verbatim>\<open>summary\<close>. The keys of an object
  are pairwise distinct.
\<close>

theorem details_of_listed:
  assumes dp: "distinct (map fst (paths spec))"
    and items: "\<forall>(p, item) \<in> set (paths spec).
        distinct (map fst item)
        \<and> (\<forall>(k, v) \<in> set item. isOpenAPIOperation v \<longrightarrow> lower_case_ascii k)"
    and s: "s \<in> set (extractEndpointSummaries spec)"
  shows "\<exists>d. getEndpointDetails spec (es_path s) (es_method s) = Some d
     \<and> ed_operationId d = es_operationId s \<and> ed_summary d = es_summary s"
proof -
  from s obtain p item k v where
    pi: "(p, item) \<in> set (paths spec)" and kv: "(k, v) \<in> set item" and
    op: "isOpenAPIOperation v" and
    s_eq: "s = \<lparr>es_path = p, es_method = toUpperCase k,
              es_summary = get_prop v ''summary'',
              es_description = get_prop v ''description'',
              es_operationId = get_prop v ''operationId'',
              es_tags = get_prop v ''tags''\<rparr>"
    unfolding in_extractEndpointSummaries in_path_item_summaries by blast
  from dp pi have 1: "map_of (paths spec) p = Some item" by simp
  from items pi have di: "distinct (map fst item)"
    and low: "\<forall>(k, v) \<in> set item. isOpenAPIOperation v \<longrightarrow> lower_case_ascii k" by auto
  from low kv op have "lower_case_ascii k" by auto
  then have "toLowerCase (toUpperCase k) = k" by (rule lower_upper)
  moreover from di kv have "map_of item k = Some v" by simp
  ultimately have 2: "map_of item (toLowerCase (es_method s)) = Some v" by (simp add: s_eq)
  from operation_is_object[OF op] have 3: "truthy v" by auto
  show ?thesis using 1 2 3 by (simp add: getEndpointDetails_def s_eq)
qed

text \<open>
  \<^verbatim>\<open>GET /customers\<close> of the example document: its path item has a third key,
  \<^verbatim>\<open>parameters\<close>, that holds no operation.
\<close>

theorem details_of_listed_witness:
  "\<lparr>es_path = ''/customers'', es_method = ''GET'',
     es_summary = Some (JStr ''List customers''), es_description = None,
     es_operationId = Some (JStr ''listCustomers''),
     es_tags = Some (JArr [JStr ''Customer''])\<rparr> \<in> set (extractEndpointSummaries customers_spec)
   \<and> (\<exists>d. getEndpointDetails customers_spec ''/customers'' ''GET'' = Some d
     \<and> ed_operationId d = Some (JStr ''listCustomers'')
     \<and> ed_summary d = Some (JStr ''List customers''))"
  using details_of_listed[of customers_spec
      "\<lparr>es_path = ''/customers'', es_method = ''GET'',
        es_summary = Some (JStr ''List customers''), es_description = None,
        es_operationId = Some (JStr ''listCustomers''),
        es_tags = Some (JArr [JStr ''Customer''])\<rparr>"]
  by (simp add: index_defs lower_case_ascii_def ascii_string_def customers_spec_def
      customers_item_def)

text \<open>
  The claim as the specification states it, for every document, fails on
  \<open>upper_key_spec\<close>: the operation under the key \<^verbatim>\<open>GET\<close> is listed with the method
  \<^verbatim>\<open>GET\<close>, and \<^verbatim>\<open>getEndpointDetails\<close> looks for the key \<^verbatim>\<open>get\<close> and finds
  nothing.
\<close>

theorem upper_case_key_not_found:
  "extractEndpointSummaries upper_key_spec =
     [\<lparr>es_path = ''/customers'', es_method = ''GET'',
       es_summary = Some (JStr ''List customers''), es_description = None,
       es_operationId = Some (JStr ''listCustomers''), es_tags = None\<rparr>]
   \<and> getEndpointDetails upper_key_spec ''/customers'' ''GET'' = None"
  by (simp add: index_defs upper_key_spec_def)

text \<open>
  C8. \<^verbatim>\<open>isOpenAPIOperation\<close> accepts exactly the objects that carry one of the keys
  \<^verbatim>\<open>responses\<close>, \<^verbatim>\<open>summary\<close>, \<^verbatim>\<open>description\<close>, \<^verbatim>\<open>operationId\<close>; and the
  (path, method) pairs of \<^verbatim>\<open>extractEndpointSummaries\<close> are, in the order of the
  document, the pairs of a path and an upper-cased key whose value the predicate accepts.
\<close>

theorem operation_recognition:
  "(isOpenAPIOperation v \<longleftrightarrow>
      (\<exists>es. v = JObj es \<and>
         (''responses'' \<in> fst ` set es \<or> ''summary'' \<in> fst ` set es
          \<or> ''description'' \<in> fst ` set es \<or> ''operationId'' \<in> fst ` set es)))
   \<and> map (\<lambda>s. (es_path s, es_method s)) (extractEndpointSummaries spec) =
       concat (map (\<lambda>(p, item).
         map (\<lambda>(k, v). (p, toUpperCase k)) (filter (\<lambda>(k, v). isOpenAPIOperation v) item))
         (paths spec))"
proof
  show "isOpenAPIOperation v \<longleftrightarrow>
      (\<exists>es. v = JObj es \<and>
         (''responses'' \<in> fst ` set es \<or> ''summary'' \<in> fst ` set es
          \<or> ''description'' \<in> fst ` set es \<or> ''operationId'' \<in> fst ` set es))"
    by (cases v) (simp_all add: isOpenAPIOperation_def)
next
  have item: "map (\<lambda>s. (es_path s, es_method s)) (path_item_summaries p item) =
      map (\<lambda>(k, v). (p, toUpperCase k)) (filter (\<lambda>(k, v). isOpenAPIOperation v) item)"
    for p item
    by (induction item) (auto simp: path_item_summaries_def)
  show "map (\<lambda>s. (es_path s, es_method s)) (extractEndpointSummaries spec) =
       concat (map (\<lambda>(p, item).
         map (\<lambda>(k, v). (p, toUpperCase k)) (filter (\<lambda>(k, v). isOpenAPIOperation v) item))
         (paths spec))"
  proof -
    have "map (\<lambda>s. (es_path s, es_method s))
        (concat (map (\<lambda>(path, pathItem). path_item_summaries path pathItem) ps)) =
       concat (map (\<lambda>(p, item).
         map (\<lambda>(k, v). (p, toUpperCase k)) (filter (\<lambda>(k, v). isOpenAPIOperation v) item)) ps)"
      for ps
      by (induction ps) (auto simp: item)
    then show ?thesis by (simp add: extractEndpointSummaries_def)
  qed
qed

theorem operation_recognition_witness:
  "isOpenAPIOperation (JObj [(''responses'', JObj [])])
   \<and> \<not> isOpenAPIOperation (JObj [(''notAnOperation'', JBool True)])
   \<and> \<not> isOpenAPIOperation JNull
   \<and> map (\<lambda>s. (es_path s, es_method s)) (extractEndpointSummaries customers_spec) =
       [(''/customers'', ''POST''), (''/customers'', ''GET''), (''/addresses'', ''POST'')]"
  using operation_recognition[of "JObj [(''responses'', JObj [])]" customers_spec]
    operation_recognition[of "JObj [(''notAnOperation'', JBool True)]" customers_spec]
    operation_recognition[of JNull customers_spec]
  by (simp add: customers_spec_def customers_item_def isOpenAPIOperation_def toUpperCase_def
      upper_char_def)

text \<open>
  C10. \<^verbatim>\<open>getEndpointDetails\<close> does not ask \<^verbatim>\<open>isOpenAPIOperation\<close>: for a path of
  the document it returns a record whenever the path item has a truthy value under the
  lower-cased method. A path-level \<^verbatim>\<open>parameters\<close> list is such a value, it is no
  operation, and the method \<^verbatim>\<open>PARAMETERS\<close> gets a record with every field undefined.
\<close>

theorem details_without_recognition:
  "(map_of (paths spec) path = Some item \<and> map_of item (toLowerCase method) = Some v \<and> truthy v
      \<longrightarrow> getEndpointDetails spec path method =
            Some \<lparr>ed_summary = get_prop v ''summary'',
                  ed_description = get_prop v ''description'',
                  ed_operationId = get_prop v ''operationId'',
                  ed_parameters = get_prop v ''parameters'',
                  ed_requestBody = get_prop v ''requestBody'',
                  ed_responses = get_prop v ''responses'',
                  ed_tags = get_prop v ''tags''\<rparr>)
   \<and> (map_of (paths spec) path = Some item \<and> map_of item ''parameters'' = Some (JArr ps)
      \<longrightarrow> \<not> isOpenAPIOperation (JArr ps) \<and>
          getEndpointDetails spec path ''PARAMETERS'' =
            Some \<lparr>ed_summary = None, ed_description = None, ed_operationId = None,
                  ed_parameters = None, ed_requestBody = None, ed_responses = None,
                  ed_tags = None\<rparr>)"
  by (simp add: getEndpointDetails_def isOpenAPIOperation_def toLowerCase_def lower_char_def)

theorem details_without_recognition_witness:
  "getEndpointDetails customers_spec ''/customers'' ''PARAMETERS'' =
     Some \<lparr>ed_summary = None, ed_description = None, ed_operationId = None,
           ed_parameters = None, ed_requestBody = None, ed_responses = None,
           ed_tags = None\<rparr>
   \<and> \<not> isOpenAPIOperation (JArr [JObj [(''name'', JStr ''page''), (''in'', JStr ''query'')]])
   \<and> getEndpointDetails customers_spec ''/customers'' ''Get'' =
     Some \<lparr>ed_summary = Some (JStr ''List customers''), ed_description = None,
           ed_operationId = Some (JStr ''listCustomers''), ed_parameters = None,
           ed_requestBody = None, ed_responses = None,
           ed_tags = Some (JArr [JStr ''Customer''])\<rparr>"
  using details_without_recognition[of customers_spec "''/customers''" customers_item
      "''PARAMETERS''" "JArr [JObj [(''name'', JStr ''page''), (''in'', JStr ''query'')]]"
      "[JObj [(''name'', JStr ''page''), (''in'', JStr ''query'')]]"]
    details_without_recognition[of customers_spec "''/customers''" customers_item
      "''Get''" "JObj [(''summary'', JStr ''List customers''),
                      (''operationId'', JStr ''listCustomers''),
                      (''tags'', JArr [JStr ''Customer''])]" "[]"]
  by (simp add: customers_spec_def customers_item_def toLowerCase_def lower_char_def)

lemma group_endpoints_buckets:
  "\<forall>e \<in> set eps. primary_tag e \<notin> set object_prototype_members \<Longrightarrow>
     \<exists>g'. group_endpoints g eps = Inr g' \<and>
       (\<forall>tag. g' tag =
          (if filter (\<lambda>e. primary_tag e = tag) eps = [] then g tag
           else Some ((case g tag of None \<Rightarrow> [] | Some b \<Rightarrow> b)
                      @ filter (\<lambda>e. primary_tag e = tag) eps)))"
proof (induction eps arbitrary: g)
  case Nil
  then show ?case by simp
next
  case (Cons e eps)
  from Cons.prems have e: "primary_tag e \<notin> set object_prototype_members"
    and rest: "\<forall>e \<in> set eps. primary_tag e \<notin> set object_prototype_members" by simp_all
  let ?g1 = "g(primary_tag e \<mapsto> (case g (primary_tag e) of None \<Rightarrow> [] | Some b \<Rightarrow> b) @ [e])"
  from e have push: "push_endpoint g e = Inr ?g1"
    by (simp add: push_endpoint_def Let_def split: option.splits)
  from Cons.IH[OF rest, of ?g1] obtain g' where
    g': "group_endpoints ?g1 eps = Inr g'" and
    buckets: "\<forall>tag. g' tag =
          (if filter (\<lambda>e. primary_tag e = tag) eps = [] then ?g1 tag
           else Some ((case ?g1 tag of None \<Rightarrow> [] | Some b \<Rightarrow> b)
                      @ filter (\<lambda>e. primary_tag e = tag) eps))"
    by blast
  from push g' have "group_endpoints g (e # eps) = Inr g'" by simp
  moreover from buckets have "\<forall>tag. g' tag =
          (if filter (\<lambda>x. primary_tag x = tag) (e # eps) = [] then g tag
           else Some ((case g tag of None \<Rightarrow> [] | Some b \<Rightarrow> b)
                      @ filter (\<lambda>x. primary_tag x = tag) (e # eps)))"
    by simp
  ultimately show ?case by blast
qed

lemma createSummary_buckets:
  assumes "\<forall>e \<in> set (extractEndpointSummaries spec). primary_tag e \<notin> set object_prototype_members"
  shows "\<exists>g. createSummary spec =
        Inr \<lparr>as_info = info spec, totalEndpoints = length (extractEndpointSummaries spec),
             endpointsByTag = g\<rparr>
     \<and> (\<forall>tag. g tag =
          (if tag \<in> primary_tag ` set (extractEndpointSummaries spec)
           then Some (filter (\<lambda>e. primary_tag e = tag) (extractEndpointSummaries spec))
           else None))"
proof -
  have empty: "filter (\<lambda>e. primary_tag e = tag) eps = [] \<longleftrightarrow> tag \<notin> primary_tag ` set eps"
    for eps tag
    by (auto simp: filter_empty_conv)
  from group_endpoints_buckets[OF assms, of Map.empty] obtain g where
    "group_endpoints Map.empty (extractEndpointSummaries spec) = Inr g"
    "\<forall>tag. g tag =
          (if filter (\<lambda>e. primary_tag e = tag) (extractEndpointSummaries spec) = [] then None
           else Some (filter (\<lambda>e. primary_tag e = tag) (extractEndpointSummaries spec)))"
    by auto
  then show ?thesis by (auto simp: createSummary_def Let_def empty)
qed

text \<open>
  C7, as the code has it. Let no endpoint of the document be grouped under a name inherited
  from \<^verbatim>\<open>Object.prototype\<close>, and let the tag be a string that is not empty and no such
  name. When no endpoint is grouped under the tag (the group of an endpoint is its first tag,
  or \<^verbatim>\<open>default\<close> when it has none), the result has \<^verbatim>\<open>totalEndpoints = 0\<close> and no
  bucket, and no error is signalled. When some endpoint is, the result has exactly the bucket
  of the tag, with the endpoints of that group in the order of the document, and
  \<^verbatim>\<open>totalEndpoints\<close> is its length.
\<close>

theorem filter_by_tag:
  assumes "\<forall>e \<in> set (extractEndpointSummaries spec). primary_tag e \<notin> set object_prototype_members"
    and "tag \<noteq> []" "tag \<notin> set object_prototype_members"
  shows "(tag \<notin> primary_tag ` set (extractEndpointSummaries spec) \<longrightarrow>
        handleListAllEndpoints (Inr spec) \<lparr>filterByTag = Some tag\<rparr> =
          Inr (Summary \<lparr>as_info = info spec, totalEndpoints = 0, endpointsByTag = Map.empty\<rparr>))
   \<and> (tag \<in> primary_tag ` set (extractEndpointSummaries spec) \<longrightarrow>
        handleListAllEndpoints (Inr spec) \<lparr>filterByTag = Some tag\<rparr> =
          Inr (Summary \<lparr>as_info = info spec,
               totalEndpoints =
                 length (filter (\<lambda>e. primary_tag e = tag) (extractEndpointSummaries spec)),
               endpointsByTag =
                 [tag \<mapsto> filter (\<lambda>e. primary_tag e = tag) (extractEndpointSummaries spec)]\<rparr>))"
proof -
  from createSummary_buckets[OF assms(1)] obtain g where
    cs: "createSummary spec =
        Inr \<lparr>as_info = info spec, totalEndpoints = length (extractEndpointSummaries spec),
             endpointsByTag = g\<rparr>"
    and g: "\<forall>tag. g tag =
          (if tag \<in> primary_tag ` set (extractEndpointSummaries spec)
           then Some (filter (\<lambda>e. primary_tag e = tag) (extractEndpointSummaries spec))
           else None)"
    by blast
  from g have "g tag =
          (if tag \<in> primary_tag ` set (extractEndpointSummaries spec)
           then Some (filter (\<lambda>e. primary_tag e = tag) (extractEndpointSummaries spec))
           else None)" by blast
  with cs assms(2,3) show ?thesis
    by (simp add: handleListAllEndpoints_def)
qed

theorem filter_by_tag_witness:
  "handleListAllEndpoints (Inr customers_spec) \<lparr>filterByTag = Some ''Autoramp''\<rparr> =
     Inr (Summary \<lparr>as_info = info customers_spec, totalEndpoints = 0,
                   endpointsByTag = Map.empty\<rparr>)
   \<and> handleListAllEndpoints (Inr customers_spec) \<lparr>filterByTag = Some ''Addresses''\<rparr> =
     Inr (Summary \<lparr>as_info = info customers_spec, totalEndpoints = 1,
          endpointsByTag = [''Addresses'' \<mapsto>
            [\<lparr>es_path = ''/addresses'', es_method = ''POST'',
              es_summary = Some (JStr ''Create address''), es_description = None,
              es_operationId = Some (JStr ''createAddress''),
              es_tags = Some (JArr [JStr ''Addresses''])\<rparr>]]\<rparr>)"
  using filter_by_tag[of customers_spec "''Autoramp''"]
    filter_by_tag[of customers_spec "''Addresses''"]
  by (simp add: extractEndpointSummaries_def path_item_summaries_def isOpenAPIOperation_def
      toUpperCase_def upper_char_def primary_tag_def customers_spec_def customers_item_def
      object_prototype_members_def)

text \<open>
  The claim as the specification states it, for every document and every tag string that
  labels no endpoint, fails in three ways. The empty string is falsy, so no filter is
  applied: on \<open>untagged_spec\<close>, whose one endpoint is grouped under \<^verbatim>\<open>default\<close>, the
  result has \<^verbatim>\<open>totalEndpoints = 1\<close>. The tag \<^verbatim>\<open>constructor\<close> labels no endpoint of
  that document, and the lookup finds the inherited member of that name. And on
  \<open>constructor_spec\<close>, whose endpoint has this tag, building the summary raises
  \<open>TypeError\<close>, whatever tag is asked for.
\<close>

theorem filter_by_tag_fails:
  "map primary_tag (extractEndpointSummaries untagged_spec) = [''default'']
   \<and> handleListAllEndpoints (Inr untagged_spec) \<lparr>filterByTag = Some []\<rparr> =
       Inr (Summary \<lparr>as_info = None, totalEndpoints = 1,
            endpointsByTag = [''default'' \<mapsto>
              [\<lparr>es_path = ''/customers'', es_method = ''GET'',
                es_summary = Some (JStr ''List customers''), es_description = None,
                es_operationId = None, es_tags = None\<rparr>]]\<rparr>)
   \<and> handleListAllEndpoints (Inr untagged_spec) \<lparr>filterByTag = Some ''constructor''\<rparr> =
       Inr (InheritedMember None ''constructor'')
   \<and> map primary_tag (extractEndpointSummaries constructor_spec) = [''constructor'']
   \<and> handleListAllEndpoints (Inr constructor_spec) \<lparr>filterByTag = Some ''Customer''\<rparr> =
       Inl (Runtime TypeError)"
  by (simp add: index_defs untagged_spec_def constructor_spec_def handleListAllEndpoints_def
      createSummary_def push_endpoint_def object_prototype_members_def)

section \<open>Properties of the invocation gateway\<close>

text \<open>
  C3. In read-only mode \<^verbatim>\<open>handleInvokeApiEndpoint\<close> throws the configuration error
  whatever the path, the method, the document and the collaborators are, and it has asked
  nothing of the outside by then: no document is loaded and no HTTP request is sent.
\<close>

theorem read_only_rejects:
  "readOnlyMode config \<Longrightarrow>
     handleInvokeApiEndpoint config env loaded args =
       (Inl (McpError InvalidRequest
          ''API calls are disabled in read-only mode. Use environment variable IRON_READ_ONLY_MODE=false to enable.''),
        [])"
  by (simp add: handleInvokeApiEndpoint_def read_only_rejection_def)

text \<open>\<^verbatim>\<open>GET /customers\<close> is an endpoint of the document, and it is rejected.\<close>

theorem read_only_rejects_witness:
  "getEndpointDetails customers_spec ''/customers'' ''GET'' \<noteq> None
   \<and> handleInvokeApiEndpoint read_only_config (fixed_outcome (Threw (ErrorInstance ''unused'')))
       (Inr customers_spec) (get_customers limit_offset) =
       (Inl (McpError InvalidRequest
          ''API calls are disabled in read-only mode. Use environment variable IRON_READ_ONLY_MODE=false to enable.''),
        [])"
  using read_only_rejects[of read_only_config
      "fixed_outcome (Threw (ErrorInstance ''unused''))" "Inr customers_spec"
      "get_customers limit_offset"]
  by (simp add: read_only_config_def getEndpointDetails_def customers_spec_def
      customers_item_def toLowerCase_def lower_char_def)








lemma nat_to_dec_0: "nat_to_dec 0 = ''0''"
  by (simp add: nat_to_dec.simps)



lemma spread_of_headers:
  "request_headers ''k'' (Some [(''b'', ''1''), (''5'', ''x''), (''X-API-key'', ''o'')]) =
     [(''5'', ''x''), (''X-API-key'', ''o''), (''Content-Type'', ''application/json''),
      (''b'', ''1'')]"
  by (simp add: request_headers_def own_property_order_def is_array_index_def dec_value_def)




section \<open>Effects of reference resolution\<close>

lemma extends_refl: "extends X h h"
  by (simp add: extends_def)

lemma extends_trans: "extends X h h1 \<Longrightarrow> extends X h1 h2 \<Longrightarrow> extends X h h2"
  by (auto simp: extends_def)

lemma extends_mono: "extends X h h' \<Longrightarrow> X \<subseteq> Y \<Longrightarrow> extends Y h h'"
  by (auto simp: extends_def)

lemma extends_alloc: "alloc c h = (b, h1) \<Longrightarrow> extends X h h1"
  by (auto simp: extends_def alloc_def nth_append)

lemma extends_set_add: "extends {a} h (set_add a v h)"
  by (simp add: extends_def set_add_def)

lemma extends_object_assign: "extends {b} h (object_assign b k v h)"
  by (auto simp: extends_def object_assign_def split: option.splits cell.splits)

lemma extends_fresh:
  "alloc c h = (b, h1) \<Longrightarrow> extends (insert b X) h1 h2 \<Longrightarrow> extends X h h2"
  by (auto simp: extends_def alloc_def nth_append)

lemma resolution_extends:
  "extends {visited} h (snd (resolveSchemaReferences_heap n obj spec visited h))"
  "extends {visited} h (snd (resolve_items_heap n xs spec visited h))"
  "extends {visited, resolved} h (snd (resolve_entries_heap n es spec visited resolved h))"
proof (induction n obj spec visited h and n xs spec visited h and n es spec visited resolved h
    rule: resolveSchemaReferences_heap_resolve_items_heap_resolve_entries_heap.induct)
  case (1 obj spec visited h)
  then show ?case by (simp add: extends_refl)
next
  case (2 n obj spec visited h)
  show ?case
  proof (cases obj)
    case (VRef a)
    show ?thesis
    proof (cases "cell_at h a")
      case None
      with VRef show ?thesis by (simp add: extends_refl)
    next
      case (Some c)
      show ?thesis
      proof (cases c)
        case (Arr xs)
        obtain r h1 where rv: "resolve_items_heap n xs spec visited h = (r, h1)" by force
        from 2(1)[OF VRef Some Arr] rv have e1: "extends {visited} h h1" by simp
        show ?thesis
        proof (cases r)
          case (Returned ys)
          obtain b h2 where al: "alloc (Arr ys) h1 = (b, h2)" by force
          from extends_trans[OF e1 extends_alloc[OF al]] VRef Some Arr rv Returned al
          show ?thesis by simp
        qed (use VRef Some Arr rv e1 in simp_all)
      next
        case (SetCell vs)
        obtain b h1 where al: "alloc (Obj []) h = (b, h1)" by force
        from extends_alloc[OF al] VRef Some SetCell al show ?thesis by simp
      next
        case (Obj es)
        show ?thesis
        proof (cases "map_of es ''$ref''")
          case None
          obtain b h1 where al: "alloc (Obj []) h = (b, h1)" by force
          obtain r h2 where fr: "resolve_entries_heap n es spec visited b h1 = (r, h2)" by force
          from 2(2)[OF VRef Some Obj None al[symmetric]] fr
          have "extends {visited, b} h1 h2" by simp
          then have "extends (insert b {visited}) h1 h2" by (simp add: insert_commute)
          from extends_fresh[OF al this] have "extends {visited} h h2" .
          with VRef Some Obj None al fr show ?thesis by (cases r) simp_all
        next
          case (Some ref)
          note has_ref = this
          show ?thesis
          proof (cases "ref \<in> set (set_members h visited)")
            case True
            obtain b h1 where al: "alloc (Obj [(''$ref'', ref)]) h = (b, h1)" by force
            from extends_alloc[OF al] VRef \<open>cell_at h a = Some c\<close> Obj has_ref True al
            show ?thesis by simp
          next
            case False
            let ?h1 = "set_add visited ref h"
            have e1: "extends {visited} h ?h1" by (rule extends_set_add)
            show ?thesis
            proof (cases ref)
              case (VStr r)
              show ?thesis
              proof (cases "referenced_schema_heap ?h1 spec r")
                case None
                with VRef \<open>cell_at h a = Some c\<close> Obj has_ref False VStr e1
                show ?thesis by simp
              next
                case (Some sch)
                from 2(3)[OF VRef \<open>cell_at h a = Some c\<close> Obj has_ref False refl VStr Some]
                have "extends {visited} ?h1 (snd (resolveSchemaReferences_heap n sch spec visited ?h1))" .
                from extends_trans[OF e1 this]
                  VRef \<open>cell_at h a = Some c\<close> Obj has_ref False VStr Some
                show ?thesis by simp
              qed
            qed (use VRef \<open>cell_at h a = Some c\<close> Obj has_ref False e1 in simp_all)
          qed
        qed
      qed
    qed
  qed (simp_all add: extends_refl)
next
  case (3 n spec visited h)
  then show ?case by (simp add: extends_refl)
next
  case (4 n x xs spec visited h)
  obtain r h1 where rv: "resolveSchemaReferences_heap n x spec visited h = (r, h1)" by force
  from 4(1) rv have e1: "extends {visited} h h1" by simp
  show ?case
  proof (cases r)
    case (Returned y)
    obtain r2 h2 where rvs: "resolve_items_heap n xs spec visited h1 = (r2, h2)" by force
    from 4(2)[OF rv[symmetric] Returned] rvs have "extends {visited} h1 h2" by simp
    from extends_trans[OF e1 this] rv Returned rvs show ?thesis by (cases r2) simp_all
  qed (use rv e1 in simp_all)
next
  case (5 n spec visited resolved h)
  then show ?case by (simp add: extends_refl)
next
  case (6 n key "value" es spec visited resolved h)
  obtain r h1 where rv: "resolveSchemaReferences_heap n value spec visited h = (r, h1)" by force
  from 6(1) rv have "extends {visited} h h1" by simp
  then have e1: "extends {visited, resolved} h h1" by (rule extends_mono) simp
  show ?case
  proof (cases r)
    case (Returned v)
    let ?h2 = "object_assign resolved key v h1"
    have "extends {resolved} h1 ?h2" by (rule extends_object_assign)
    then have e2: "extends {visited, resolved} h1 ?h2" by (rule extends_mono) simp
    from 6(2)[OF rv[symmetric] Returned]
    have "extends {visited, resolved} ?h2 (snd (resolve_entries_heap n es spec visited resolved ?h2))" .
    from extends_trans[OF extends_trans[OF e1 e2] this] rv Returned show ?thesis by simp
  qed (use rv e1 in simp_all)
qed

text \<open>
  C9. A top-level call of \<^verbatim>\<open>resolveSchemaReferences\<close> leaves every object that exists
  when it starts as it is: the heap after the call begins with the heap before it. So the
  node, the document and its schema table are unchanged, however the call ends. The
  \<^verbatim>\<open>visited\<close> set of the call is an object the call creates, at an address that was
  free; a second top-level call creates another one and, by the first statement, leaves
  the set of the first call as it is.
\<close>

theorem resolution_frame:
  assumes "resolve_heap n obj spec h = (r, h', visited)"
    and "resolve_heap n2 obj2 spec2 h' = (r2, h'', visited2)"
  shows "take (length h) h' = h \<and> take (length h') h'' = h'
    \<and> visited = length h \<and> visited2 = length h' \<and> visited \<noteq> visited2"
proof -
  have frame: "take (length h) h' = h \<and> visited = length h \<and> length h < length h'"
    if "resolve_heap n obj spec h = (r, h', visited)" for n obj spec h r h' visited
  proof -
    from that have v: "visited = length h"
      and h': "h' = snd (resolveSchemaReferences_heap n obj spec (length h) (h @ [SetCell []]))"
      by (auto simp: resolve_heap_def alloc_def split: prod.splits)
    have "extends {length h} (h @ [SetCell []]) h'"
      unfolding h' by (rule resolution_extends(1))
    then have len: "length h < length h'" and same: "\<forall>a < length h. h' ! a = h ! a"
      by (auto simp: extends_def nth_append)
    from len same have "take (length h) h' = h"
      by (intro nth_equalityI) auto
    with v len show ?thesis by simp
  qed
  from frame[OF assms(1)] frame[OF assms(2)] show ?thesis by auto
qed

text \<open>Two calls on the example heap, each with enough depth to return.\<close>

theorem resolution_frame_witness:
  "resolve_heap (Suc (Suc (Suc (Suc 0)))) (VRef 5) 0 example_heap
     = (Returned (VRef 7), example_heap_once, 6)
   \<and> resolve_heap (Suc (Suc (Suc (Suc 0)))) (VRef 5) 0 example_heap_once
     = (Returned (VRef 10), example_heap_twice, 9)
   \<and> take (length example_heap) example_heap_once = example_heap
   \<and> take (length example_heap_once) example_heap_twice = example_heap_once"
proof -
  have 1: "resolve_heap (Suc (Suc (Suc (Suc 0)))) (VRef 5) 0 example_heap
     = (Returned (VRef 7), example_heap_once, 6)"
    by (simp add: resolve_heap_def alloc_def cell_at_def set_members_def set_add_def
      object_assign_def example_heap_def example_heap_once_def referenced_schema_heap_def
      part_at_def read_member_def)
  have 2: "resolve_heap (Suc (Suc (Suc (Suc 0)))) (VRef 5) 0 example_heap_once
     = (Returned (VRef 10), example_heap_twice, 9)"
    by (simp add: resolve_heap_def alloc_def cell_at_def set_members_def set_add_def
      object_assign_def example_heap_def example_heap_once_def example_heap_twice_def
      referenced_schema_heap_def part_at_def read_member_def)
  from resolution_frame[OF 1 2] 1 2 show ?thesis by blast
qed

end
